theory Spec2Isabelle
  imports Main
begin

section \<open>The data model (types/tetris.ts)\<close>

text \<open>
  Numbers of the source are modelled as integers and arrays as lists, so a grid or a
  shape (\<^verbatim>\<open>number[][]\<close>) is a list of lists of integers.  A cell is filled when it
  is truthy, that is, different from 0.
\<close>

record Position =
  row :: int
  col :: int

datatype TetrominoType = Type_I | Type_O | Type_T | Type_S | Type_Z | Type_J | Type_L

record Tetromino =
  shape :: "int list list"
  type :: TetrominoType
  color :: string

record GameState =
  board :: "int list list"
  currentPiece :: Tetromino
  currentPosition :: Position
  nextPiece :: Tetromino
  score :: int
  isGameOver :: bool
  isPaused :: bool

definition BOARD_WIDTH :: int where
  "BOARD_WIDTH = 10"

definition BOARD_HEIGHT :: int where
  "BOARD_HEIGHT = 20"

fun TETROMINOES :: "TetrominoType \<Rightarrow> Tetromino" where
  "TETROMINOES Type_I =
     \<lparr>shape = [[0, 0, 0, 0], [1, 1, 1, 1], [0, 0, 0, 0], [0, 0, 0, 0]],
      type = Type_I, color = ''#00f0f0''\<rparr>"
| "TETROMINOES Type_O =
     \<lparr>shape = [[1, 1], [1, 1]], type = Type_O, color = ''#f0f000''\<rparr>"
| "TETROMINOES Type_T =
     \<lparr>shape = [[0, 1, 0], [1, 1, 1], [0, 0, 0]], type = Type_T, color = ''#a000f0''\<rparr>"
| "TETROMINOES Type_S =
     \<lparr>shape = [[0, 1, 1], [1, 1, 0], [0, 0, 0]], type = Type_S, color = ''#00f000''\<rparr>"
| "TETROMINOES Type_Z =
     \<lparr>shape = [[1, 1, 0], [0, 1, 1], [0, 0, 0]], type = Type_Z, color = ''#f00000''\<rparr>"
| "TETROMINOES Type_J =
     \<lparr>shape = [[1, 0, 0], [1, 1, 1], [0, 0, 0]], type = Type_J, color = ''#0000f0''\<rparr>"
| "TETROMINOES Type_L =
     \<lparr>shape = [[0, 0, 1], [1, 1, 1], [0, 0, 0]], type = Type_L, color = ''#f0a000''\<rparr>"

section \<open>The primitives (hooks/useTetris.ts)\<close>

text \<open>
  The exceptions the primitives can raise are values.  \<open>TypeError\<close> and \<open>RangeError\<close>
  are JavaScript's.  \<open>NonNumberCell\<close> is not an exception of the source: it marks the
  two places where the source would go on with an array that holds a hole or
  \<^verbatim>\<open>undefined\<close> (a write past the end of a short board row, a read past the end
  of a short shape row), which a list of integers cannot hold.  No board of
  \<open>BOARD_HEIGHT\<close> rows of \<open>BOARD_WIDTH\<close> cells and no rectangular shape gets there.
\<close>

datatype error = TypeError | RangeError | NonNumberCell

definition createEmptyBoard :: "int list list" where
  "createEmptyBoard = replicate (nat BOARD_HEIGHT) (replicate (nat BOARD_WIDTH) 0)"

text \<open>
  \<^verbatim>\<open>Math.floor(Math.random() * 7)\<close> selects one of the seven keys; the key drawn is
  the argument.
\<close>

definition getRandomTetromino :: "TetrominoType \<Rightarrow> Tetromino" where
  "getRandomTetromino randomType = TETROMINOES randomType"

text \<open>
  \<^verbatim>\<open>board[newRow][newCol]\<close> as a condition: a missing row makes the second index
  raise a TypeError, a missing cell reads \<^verbatim>\<open>undefined\<close>, which is falsy.
\<close>

definition boardCell :: "int list list \<Rightarrow> int \<Rightarrow> int \<Rightarrow> error + bool" where
  "boardCell b r c =
     (if r < 0 \<or> int (length b) \<le> r then Inl TypeError
      else if c < 0 \<or> int (length (b ! nat r)) \<le> c then Inr False
      else Inr (b ! nat r ! nat c \<noteq> 0))"

text \<open>
  The two loops of \<open>isValidMove\<close>: \<open>r\<close> and \<open>c\<close> are the loop indices, the list
  arguments what is left of the shape.  \<open>Inr False\<close> is the early return.
\<close>

fun isValidMove_cols ::
  "int list list \<Rightarrow> Position \<Rightarrow> int \<Rightarrow> int \<Rightarrow> int list \<Rightarrow> error + bool" where
  "isValidMove_cols b position r c [] = Inr True"
| "isValidMove_cols b position r c (cell # cells) =
     (if cell \<noteq> 0 then
        (let newRow = row position + r; newCol = col position + c in
         if newRow < 0 \<or> newRow \<ge> BOARD_HEIGHT \<or> newCol < 0 \<or> newCol \<ge> BOARD_WIDTH
         then Inr False
         else (case boardCell b newRow newCol of
                 Inl e \<Rightarrow> Inl e
               | Inr filled \<Rightarrow>
                   if filled then Inr False
                   else isValidMove_cols b position r (c + 1) cells))
      else isValidMove_cols b position r (c + 1) cells)"

fun isValidMove_rows ::
  "int list list \<Rightarrow> Position \<Rightarrow> int \<Rightarrow> int list list \<Rightarrow> error + bool" where
  "isValidMove_rows b position r [] = Inr True"
| "isValidMove_rows b position r (shapeRow # shapeRows) =
     (case isValidMove_cols b position r 0 shapeRow of
        Inl e \<Rightarrow> Inl e
      | Inr ok \<Rightarrow>
          if ok then isValidMove_rows b position (r + 1) shapeRows else Inr False)"

definition isValidMove :: "int list list \<Rightarrow> Tetromino \<Rightarrow> Position \<Rightarrow> error + bool" where
  "isValidMove b piece position = isValidMove_rows b position 0 (shape piece)"

text \<open>
  \<open>rotatePiece\<close>: one new row per index of the first row, holding that column read
  bottom-up.  An empty shape has no first row (\<^verbatim>\<open>piece.shape[0].map\<close> raises).
\<close>

definition rotatePiece :: "Tetromino \<Rightarrow> error + Tetromino" where
  "rotatePiece piece =
     (case shape piece of
        [] \<Rightarrow> Inl TypeError
      | first # _ \<Rightarrow>
          if list_all (\<lambda>shapeRow. length first \<le> length shapeRow) (shape piece)
          then Inr (piece\<lparr>shape :=
                 map (\<lambda>index. rev (map (\<lambda>shapeRow. shapeRow ! index) (shape piece)))
                   [0..<length first]\<rparr>)
          else Inl NonNumberCell)"

text \<open>
  \<^verbatim>\<open>newBoard[newRow][newCol] = 1\<close>, reached only with both indices inside the
  declared board size: a missing row raises, a write just past the end of a row
  appends, one further out would leave holes.
\<close>

definition setCell :: "int list list \<Rightarrow> int \<Rightarrow> int \<Rightarrow> error + int list list" where
  "setCell b r c =
     (if r < 0 \<or> int (length b) \<le> r then Inl TypeError
      else if c < 0 \<or> int (length (b ! nat r)) < c then Inl NonNumberCell
      else if int (length (b ! nat r)) = c then Inr (b[nat r := b ! nat r @ [1]])
      else Inr (b[nat r := (b ! nat r)[nat c := 1]]))"

fun mergePiece_cols ::
  "int list list \<Rightarrow> Position \<Rightarrow> int \<Rightarrow> int \<Rightarrow> int list \<Rightarrow> error + int list list" where
  "mergePiece_cols newBoard position rowIndex colIndex [] = Inr newBoard"
| "mergePiece_cols newBoard position rowIndex colIndex (cell # cells) =
     (if cell \<noteq> 0 then
        (let newRow = row position + rowIndex; newCol = col position + colIndex in
         if newRow \<ge> 0 \<and> newRow < BOARD_HEIGHT \<and> newCol \<ge> 0 \<and> newCol < BOARD_WIDTH
         then (case setCell newBoard newRow newCol of
                 Inl e \<Rightarrow> Inl e
               | Inr newBoard' \<Rightarrow>
                   mergePiece_cols newBoard' position rowIndex (colIndex + 1) cells)
         else mergePiece_cols newBoard position rowIndex (colIndex + 1) cells)
      else mergePiece_cols newBoard position rowIndex (colIndex + 1) cells)"

fun mergePiece_rows ::
  "int list list \<Rightarrow> Position \<Rightarrow> int \<Rightarrow> int list list \<Rightarrow> error + int list list" where
  "mergePiece_rows newBoard position rowIndex [] = Inr newBoard"
| "mergePiece_rows newBoard position rowIndex (shapeRow # shapeRows) =
     (case mergePiece_cols newBoard position rowIndex 0 shapeRow of
        Inl e \<Rightarrow> Inl e
      | Inr newBoard' \<Rightarrow> mergePiece_rows newBoard' position (rowIndex + 1) shapeRows)"

definition mergePieceWithBoard ::
  "int list list \<Rightarrow> Tetromino \<Rightarrow> Position \<Rightarrow> error + int list list" where
  "mergePieceWithBoard b piece position = mergePiece_rows b position 0 (shape piece)"

text \<open>\<open>clearLines\<close>: \<^verbatim>\<open>row.every(cell => cell === 1)\<close> is \<open>isFullRow\<close>.\<close>

definition isFullRow :: "int list \<Rightarrow> bool" where
  "isFullRow boardRow = list_all (\<lambda>cell. cell = 1) boardRow"

fun clearedRowsFrom :: "nat \<Rightarrow> int list list \<Rightarrow> nat list" where
  "clearedRowsFrom index [] = []"
| "clearedRowsFrom index (boardRow # boardRows) =
     (if isFullRow boardRow then index # clearedRowsFrom (index + 1) boardRows
      else clearedRowsFrom (index + 1) boardRows)"

record ClearResult =
  newBoard :: "int list list"
  linesCleared :: int
  clearedRows :: "nat list"

text \<open>\<^verbatim>\<open>Array(linesCleared)\<close> raises a RangeError on a negative length.\<close>

definition clearLines :: "int list list \<Rightarrow> error + ClearResult" where
  "clearLines b =
     (let kept = filter (\<lambda>boardRow. \<not> isFullRow boardRow) b;
          n = BOARD_HEIGHT - int (length kept)
      in if n < 0 then Inl RangeError
         else Inr \<lparr>newBoard = replicate (nat n) (replicate (nat BOARD_WIDTH) 0) @ kept,
                   linesCleared = n,
                   clearedRows = clearedRowsFrom 0 b\<rparr>)"

section \<open>The engine (the hook \<open>useTetris\<close>)\<close>

text \<open>
  A command of the hook reads \<open>gameState\<close>, the state of the render that created it,
  and acts through \<^verbatim>\<open>setGameState\<close> and \<^verbatim>\<open>setTimeout\<close>.  Its effects are the
  updaters it queued, in call order, the timeouts it set, and the exception that ended
  it, if any.  React applies the queued updaters in order to the state it holds.
\<close>

record Timeout =
  delay :: nat
  capturedState :: GameState
  capturedBoard :: "int list list"
  capturedLines :: int

record Effects =
  updates :: "(GameState \<Rightarrow> GameState) list"
  timeouts :: "Timeout list"
  raised :: "error option"

definition noEffects :: Effects where
  "noEffects = \<lparr>updates = [], timeouts = [], raised = None\<rparr>"

definition throws :: "error \<Rightarrow> Effects" where
  "throws e = \<lparr>updates = [], timeouts = [], raised = Some e\<rparr>"

definition spawnPosition :: Position where
  "spawnPosition = \<lparr>row = 0, col = BOARD_WIDTH div 2 - 1\<rparr>"

definition initialState :: "TetrominoType \<Rightarrow> TetrominoType \<Rightarrow> GameState" where
  "initialState r1 r2 =
     \<lparr>board = createEmptyBoard,
      currentPiece = getRandomTetromino r1,
      currentPosition = spawnPosition,
      nextPiece = getRandomTetromino r2,
      score = 0,
      isGameOver = False,
      isPaused = False\<rparr>"

text \<open>
  The updater of a settle (the same object literal in both branches of \<open>moveDown\<close>);
  \<open>rnd\<close> is the key \<open>getRandomTetromino\<close> draws when React runs the updater.
\<close>

definition commitSettle ::
  "int list list \<Rightarrow> Tetromino \<Rightarrow> Position \<Rightarrow> TetrominoType \<Rightarrow> int \<Rightarrow> bool \<Rightarrow>
   GameState \<Rightarrow> GameState" where
  "commitSettle clearedBoard next nextPosition rnd newScore gameOver prev =
     prev\<lparr>board := clearedBoard,
          currentPiece := next,
          currentPosition := nextPosition,
          nextPiece := getRandomTetromino rnd,
          score := newScore,
          isGameOver := gameOver\<rparr>"

text \<open>
  The callback given to \<^verbatim>\<open>setTimeout\<close>.  It reads the variables its closure
  captured: \<open>gameState\<close>, \<open>clearedBoard\<close> and \<open>linesCleared\<close>.
\<close>

definition phaseTwo :: "TetrominoType \<Rightarrow> Timeout \<Rightarrow> error + (GameState \<Rightarrow> GameState)" where
  "phaseTwo rnd t =
     (let newScore = score (capturedState t) + capturedLines t * 100;
          next = nextPiece (capturedState t);
          nextPosition = spawnPosition
      in case isValidMove (capturedBoard t) next nextPosition of
           Inl e \<Rightarrow> Inl e
         | Inr valid \<Rightarrow>
             Inr (commitSettle (capturedBoard t) next nextPosition rnd newScore (\<not> valid)))"

definition moveDown :: "TetrominoType \<Rightarrow> GameState \<Rightarrow> Effects" where
  "moveDown rnd gameState =
     (if isGameOver gameState \<or> isPaused gameState then noEffects
      else
        let newPosition =
              (currentPosition gameState)\<lparr>row := row (currentPosition gameState) + 1\<rparr>
        in case isValidMove (board gameState) (currentPiece gameState) newPosition of
             Inl e \<Rightarrow> throws e
           | Inr canMove \<Rightarrow>
               if canMove then
                 \<lparr>updates = [\<lambda>prev. prev\<lparr>currentPosition := newPosition\<rparr>],
                  timeouts = [], raised = None\<rparr>
               else
                 (case mergePieceWithBoard (board gameState) (currentPiece gameState)
                         (currentPosition gameState) of
                    Inl e \<Rightarrow> throws e
                  | Inr mergedBoard \<Rightarrow>
                      (case clearLines mergedBoard of
                         Inl e \<Rightarrow> throws e
                       | Inr cleared \<Rightarrow>
                           if length (clearedRows cleared) > 0 then
                             \<lparr>updates = [\<lambda>prev. prev\<lparr>board := mergedBoard\<rparr>],
                              timeouts =
                                [\<lparr>delay = 800,
                                  capturedState = gameState,
                                  capturedBoard = newBoard cleared,
                                  capturedLines = linesCleared cleared\<rparr>],
                              raised = None\<rparr>
                           else
                             (let newScore = score gameState + linesCleared cleared * 100;
                                  next = nextPiece gameState;
                                  nextPosition = spawnPosition
                              in case isValidMove (newBoard cleared) next nextPosition of
                                   Inl e \<Rightarrow> throws e
                                 | Inr valid \<Rightarrow>
                                     \<lparr>updates =
                                        [commitSettle (newBoard cleared) next nextPosition
                                           rnd newScore (\<not> valid)],
                                      timeouts = [], raised = None\<rparr>))))"

definition moveLeft :: "GameState \<Rightarrow> Effects" where
  "moveLeft gameState =
     (if isGameOver gameState \<or> isPaused gameState then noEffects
      else
        let newPosition =
              (currentPosition gameState)\<lparr>col := col (currentPosition gameState) - 1\<rparr>
        in case isValidMove (board gameState) (currentPiece gameState) newPosition of
             Inl e \<Rightarrow> throws e
           | Inr ok \<Rightarrow>
               if ok then
                 \<lparr>updates = [\<lambda>prev. prev\<lparr>currentPosition := newPosition\<rparr>],
                  timeouts = [], raised = None\<rparr>
               else noEffects)"

definition moveRight :: "GameState \<Rightarrow> Effects" where
  "moveRight gameState =
     (if isGameOver gameState \<or> isPaused gameState then noEffects
      else
        let newPosition =
              (currentPosition gameState)\<lparr>col := col (currentPosition gameState) + 1\<rparr>
        in case isValidMove (board gameState) (currentPiece gameState) newPosition of
             Inl e \<Rightarrow> throws e
           | Inr ok \<Rightarrow>
               if ok then
                 \<lparr>updates = [\<lambda>prev. prev\<lparr>currentPosition := newPosition\<rparr>],
                  timeouts = [], raised = None\<rparr>
               else noEffects)"

definition rotate_cmd :: "GameState \<Rightarrow> Effects" where
  "rotate_cmd gameState =
     (if isGameOver gameState \<or> isPaused gameState then noEffects
      else
        case rotatePiece (currentPiece gameState) of
          Inl e \<Rightarrow> throws e
        | Inr rotatedPiece \<Rightarrow>
            (case isValidMove (board gameState) rotatedPiece (currentPosition gameState) of
               Inl e \<Rightarrow> throws e
             | Inr ok \<Rightarrow>
                 if ok then
                   \<lparr>updates = [\<lambda>prev. prev\<lparr>currentPiece := rotatedPiece\<rparr>],
                    timeouts = [], raised = None\<rparr>
                 else noEffects))"

text \<open>
  The \<^verbatim>\<open>while\<close> loop of \<open>hardDrop\<close>.  It has no bound of its own: \<open>None\<close> is the
  loop that never ends.
\<close>

partial_function (option) hardDrop_loop ::
  "int list list \<Rightarrow> Tetromino \<Rightarrow> Position \<Rightarrow> (error + Position) option" where
  "hardDrop_loop b piece newPosition =
     (case isValidMove b piece (newPosition\<lparr>row := row newPosition + 1\<rparr>) of
        Inl e \<Rightarrow> Some (Inl e)
      | Inr ok \<Rightarrow>
          if ok then hardDrop_loop b piece (newPosition\<lparr>row := row newPosition + 1\<rparr>)
          else Some (Inr newPosition))"

declare hardDrop_loop.simps [code]

text \<open>
  \<open>hardDrop\<close> queues its own updater and then calls \<open>moveDown\<close>, the callback of the
  same render: \<open>moveDown\<close> reads the same \<open>gameState\<close> as \<open>hardDrop\<close> did.
\<close>

definition hardDrop :: "TetrominoType \<Rightarrow> GameState \<Rightarrow> Effects option" where
  "hardDrop rnd gameState =
     (if isGameOver gameState \<or> isPaused gameState then Some noEffects
      else
        case hardDrop_loop (board gameState) (currentPiece gameState)
               (currentPosition gameState) of
          None \<Rightarrow> None
        | Some (Inl e) \<Rightarrow> Some (throws e)
        | Some (Inr newPosition) \<Rightarrow>
            (let down = moveDown rnd gameState
             in Some \<lparr>updates =
                        (\<lambda>prev. prev\<lparr>currentPosition := newPosition\<rparr>) # updates down,
                      timeouts = timeouts down,
                      raised = raised down\<rparr>))"

text \<open>
  \<open>resetGame\<close> draws both pieces when it is called and passes \<^verbatim>\<open>setGameState\<close> a
  state, not an updater: whatever state React holds is replaced.
\<close>

definition resetGame :: "TetrominoType \<Rightarrow> TetrominoType \<Rightarrow> Effects" where
  "resetGame r1 r2 =
     \<lparr>updates = [\<lambda>prev. initialState r1 r2], timeouts = [], raised = None\<rparr>"

definition handleKeyPress :: "string \<Rightarrow> TetrominoType \<Rightarrow> GameState \<Rightarrow> Effects option" where
  "handleKeyPress key rnd gameState =
     (if key = ''Enter'' then
        Some \<lparr>updates = [\<lambda>prev. prev\<lparr>isPaused := \<not> isPaused prev\<rparr>],
              timeouts = [], raised = None\<rparr>
      else if isPaused gameState then Some noEffects
      else if key = ''ArrowLeft'' then Some (moveLeft gameState)
      else if key = ''ArrowRight'' then Some (moveRight gameState)
      else if key = ''ArrowDown'' then Some (moveDown rnd gameState)
      else if key = ''ArrowUp'' then Some (rotate_cmd gameState)
      else if key = '' '' then hardDrop rnd gameState
      else Some noEffects)"

text \<open>The interval of the component \<open>App\<close>.\<close>

definition gameLoop :: "TetrominoType \<Rightarrow> GameState \<Rightarrow> Effects" where
  "gameLoop rnd gameState =
     (if \<not> isGameOver gameState \<and> \<not> isPaused gameState then moveDown rnd gameState
      else noEffects)"

section \<open>Sessions\<close>

text \<open>
  A session is the state React holds and the timeouts not yet fired.  Every event finds
  the callbacks of the latest render, so a command reads the state the session holds;
  the callback of a timeout reads the state its closure captured.  All timeouts have the
  same delay and fire in the order they were set.  Time itself is not modelled: any
  number of events may come before a pending timeout fires, so the sessions cover
  every order of events the app can see.  \<open>None\<close> is a handler that never returns.
\<close>

record Session =
  live :: GameState
  pending :: "Timeout list"

definition applyUpdates :: "(GameState \<Rightarrow> GameState) list \<Rightarrow> GameState \<Rightarrow> GameState" where
  "applyUpdates us g = foldl (\<lambda>st u. u st) g us"

text \<open>The state published once a command that was issued on \<open>g\<close> has returned.\<close>

definition publish :: "Effects \<Rightarrow> GameState \<Rightarrow> GameState" where
  "publish eff g = applyUpdates (updates eff) g"

definition perform :: "Effects \<Rightarrow> Session \<Rightarrow> Session" where
  "perform eff s = \<lparr>live = publish eff (live s), pending = pending s @ timeouts eff\<rparr>"

datatype event =
    CallMoveLeft
  | CallMoveRight
  | CallMoveDown TetrominoType
  | CallRotate
  | CallHardDrop TetrominoType
  | CallResetGame TetrominoType TetrominoType
  | KeyDown string TetrominoType
  | Tick TetrominoType
  | TimeoutFires TetrominoType

fun step :: "event \<Rightarrow> Session \<Rightarrow> Session option" where
  "step CallMoveLeft s = Some (perform (moveLeft (live s)) s)"
| "step CallMoveRight s = Some (perform (moveRight (live s)) s)"
| "step (CallMoveDown rnd) s = Some (perform (moveDown rnd (live s)) s)"
| "step CallRotate s = Some (perform (rotate_cmd (live s)) s)"
| "step (CallHardDrop rnd) s = map_option (\<lambda>eff. perform eff s) (hardDrop rnd (live s))"
| "step (CallResetGame r1 r2) s = Some (perform (resetGame r1 r2) s)"
| "step (KeyDown key rnd) s =
     map_option (\<lambda>eff. perform eff s) (handleKeyPress key rnd (live s))"
| "step (Tick rnd) s = Some (perform (gameLoop rnd (live s)) s)"
| "step (TimeoutFires rnd) s =
     (case pending s of
        [] \<Rightarrow> Some s
      | t # ts \<Rightarrow>
          (case phaseTwo rnd t of
             Inl e \<Rightarrow> Some (s\<lparr>pending := ts\<rparr>)
           | Inr u \<Rightarrow> Some \<lparr>live = u (live s), pending = ts\<rparr>))"

fun run :: "event list \<Rightarrow> Session \<Rightarrow> Session option" where
  "run [] s = Some s"
| "run (e # es) s = (case step e s of None \<Rightarrow> None | Some s' \<Rightarrow> run es s')"

definition initialSession :: "TetrominoType \<Rightarrow> TetrominoType \<Rightarrow> Session" where
  "initialSession r1 r2 = \<lparr>live = initialState r1 r2, pending = []\<rparr>"

inductive reachable :: "Session \<Rightarrow> bool" where
  reachable_init: "reachable (initialSession r1 r2)"
| reachable_step: "reachable s \<Longrightarrow> step e s = Some s' \<Longrightarrow> reachable s'"

section \<open>What the properties speak about\<close>

text \<open>A grid of the data model: \<open>BOARD_HEIGHT\<close> rows of \<open>BOARD_WIDTH\<close> cells.\<close>

definition wf_board :: "int list list \<Rightarrow> bool" where
  "wf_board b \<longleftrightarrow>
     int (length b) = BOARD_HEIGHT \<and>
     list_all (\<lambda>boardRow. int (length boardRow) = BOARD_WIDTH) b"

text \<open>A shape of the data model: a square matrix with at least one row.\<close>

definition squareShape :: "int list list \<Rightarrow> bool" where
  "squareShape sh \<longleftrightarrow> sh \<noteq> [] \<and> list_all (\<lambda>shapeRow. length shapeRow = length sh) sh"

text \<open>
  Every filled cell of the shape, placed at the position, lies inside the board and on
  an empty cell of it.
\<close>

definition fitsAt :: "int list list \<Rightarrow> int list list \<Rightarrow> Position \<Rightarrow> bool" where
  "fitsAt b sh position \<longleftrightarrow>
     (\<forall>r < length sh. \<forall>c < length (sh ! r). sh ! r ! c \<noteq> 0 \<longrightarrow>
        0 \<le> row position + int r \<and> row position + int r < BOARD_HEIGHT \<and>
        0 \<le> col position + int c \<and> col position + int c < BOARD_WIDTH \<and>
        b ! nat (row position + int r) ! nat (col position + int c) = 0)"

text \<open>The first half of it alone: every filled cell of the shape lies inside the board.\<close>

definition inBoundsAt :: "int list list \<Rightarrow> Position \<Rightarrow> bool" where
  "inBoundsAt sh position \<longleftrightarrow>
     (\<forall>r < length sh. \<forall>c < length (sh ! r). sh ! r ! c \<noteq> 0 \<longrightarrow>
        0 \<le> row position + int r \<and> row position + int r < BOARD_HEIGHT \<and>
        0 \<le> col position + int c \<and> col position + int c < BOARD_WIDTH)"

definition pieceInBounds :: "GameState \<Rightarrow> bool" where
  "pieceInBounds g \<longleftrightarrow> inBoundsAt (shape (currentPiece g)) (currentPosition g)"

definition pieceFits :: "GameState \<Rightarrow> bool" where
  "pieceFits g \<longleftrightarrow> fitsAt (board g) (shape (currentPiece g)) (currentPosition g)"

definition hasFullRow :: "int list list \<Rightarrow> bool" where
  "hasFullRow b \<longleftrightarrow> list_ex isFullRow b"

text \<open>\<open>rotatePiece\<close> applied \<open>n\<close> times, stopping at the first exception.\<close>

primrec rotateTimes :: "nat \<Rightarrow> Tetromino \<Rightarrow> error + Tetromino" where
  "rotateTimes 0 piece = Inr piece"
| "rotateTimes (Suc n) piece =
     (case rotatePiece piece of Inl e \<Rightarrow> Inl e | Inr rotated \<Rightarrow> rotateTimes n rotated)"

subsection \<open>Example states\<close>

text \<open>An O piece at the left wall, and one resting on the floor of an empty board.\<close>

definition leftEdgeO :: GameState where
  "leftEdgeO = (initialState Type_O Type_I)\<lparr>currentPosition := \<lparr>row = 0, col = 0\<rparr>\<rparr>"

definition restingO :: GameState where
  "restingO = (initialState Type_O Type_I)\<lparr>currentPosition := \<lparr>row = 18, col = 4\<rparr>\<rparr>"

definition settledO :: "int list list" where
  "settledO =
     replicate 18 (replicate 10 0) @
     [[0, 0, 0, 0, 1, 1, 0, 0, 0, 0], [0, 0, 0, 0, 1, 1, 0, 0, 0, 0]]"

text \<open>
  An O piece above the last gap of the bottom row: the board before it lands, after the
  merge, and after the full row is taken out.
\<close>

definition gapBoard :: "int list list" where
  "gapBoard = replicate 19 (replicate 10 0) @ [[1, 1, 1, 1, 1, 1, 1, 1, 0, 0]]"

definition filledBoard :: "int list list" where
  "filledBoard =
     replicate 18 (replicate 10 0) @
     [[0, 0, 0, 0, 0, 0, 0, 0, 1, 1], [1, 1, 1, 1, 1, 1, 1, 1, 1, 1]]"

definition collapsedBoard :: "int list list" where
  "collapsedBoard = replicate 19 (replicate 10 0) @ [[0, 0, 0, 0, 0, 0, 0, 0, 1, 1]]"

definition closingGap :: GameState where
  "closingGap =
     \<lparr>board = gapBoard, currentPiece = TETROMINOES Type_O,
      currentPosition = \<lparr>row = 18, col = 8\<rparr>, nextPiece = TETROMINOES Type_T,
      score = 0, isGameOver = False, isPaused = False\<rparr>"

text \<open>A board whose rows 3 and 7 are full and whose other rows hold one cell each.\<close>

definition twoFullRows :: "int list list" where
  "twoFullRows =
     map (\<lambda>i. if i = 3 \<or> i = 7 then replicate 10 1 else (replicate 10 0)[i mod 10 := 1])
       [0..<20]"

subsection \<open>Sessions played from the start\<close>

text \<open>
  The sessions are played with the keyboard; \<open>keys n key rnd\<close> is \<open>n\<close> presses of
  one key, each with the draw \<open>rnd\<close> at hand in case it settles a piece.
\<close>

definition keys :: "nat \<Rightarrow> string \<Rightarrow> TetrominoType \<Rightarrow> event list" where
  "keys n key rnd = replicate n (KeyDown key rnd)"

text \<open>
  Five I pieces, each turned upright and let down in the spawn column: the fifth ends
  the game.
\<close>

definition toppingOut :: "event list" where
  "toppingOut =
     keys 1 ''ArrowUp'' Type_I @ keys 17 ''ArrowDown'' Type_I @
     keys 1 ''ArrowUp'' Type_I @ keys 13 ''ArrowDown'' Type_I @
     keys 1 ''ArrowUp'' Type_I @ keys 9 ''ArrowDown'' Type_I @
     keys 1 ''ArrowUp'' Type_I @ keys 5 ''ArrowDown'' Type_I @
     keys 1 ''ArrowUp'' Type_I @ keys 1 ''ArrowDown'' Type_I"

definition stackedBoard :: "int list list" where
  "stackedBoard = replicate 20 [0, 0, 0, 0, 0, 0, 1, 0, 0, 0]"

definition toppedOut :: Session where
  "toppedOut =
     \<lparr>live = \<lparr>board = stackedBoard, currentPiece = TETROMINOES Type_I,
              currentPosition = \<lparr>row = 0, col = 4\<rparr>, nextPiece = TETROMINOES Type_I,
              score = 0, isGameOver = True, isPaused = False\<rparr>,
      pending = []\<rparr>"

text \<open>One O piece let down from the start by nineteen calls of \<open>moveDown\<close>.\<close>

definition firstSettled :: Session where
  "firstSettled =
     \<lparr>live = \<lparr>board = settledO, currentPiece = TETROMINOES Type_I,
              currentPosition = \<lparr>row = 0, col = 4\<rparr>, nextPiece = TETROMINOES Type_T,
              score = 0, isGameOver = False, isPaused = False\<rparr>,
      pending = []\<rparr>"

text \<open>
  Two I pieces laid side by side on the floor and an O piece let down into the gap they
  leave: its landing completes the bottom row, and the timeout is set.
\<close>

definition fillingRow :: "event list" where
  "fillingRow =
     keys 4 ''ArrowLeft'' Type_O @ keys 19 ''ArrowDown'' Type_O @
     keys 19 ''ArrowDown'' Type_T @
     keys 4 ''ArrowRight'' Type_Z @ keys 19 ''ArrowDown'' Type_Z"

definition clearing :: Session where
  "clearing =
     \<lparr>live = closingGap\<lparr>board := filledBoard\<rparr>,
      pending = [\<lparr>delay = 800, capturedState = closingGap,
                  capturedBoard = collapsedBoard, capturedLines = 1\<rparr>]\<rparr>"

text \<open>
  A longer game.  An I piece, an upright I piece and an O piece fill
  the bottom row from column 2 on; five upright I pieces fill column 7 up to the top;
  an O piece is then let down into the gap at the left, and its landing completes the
  bottom row.  The down key comes once more before the 800 ms are over, as it does
  when it is held, and sets a second timeout.  The first timeout fires: the I piece
  that comes in does not fit under the tower, the game is over.
\<close>

definition towerGame :: "event list" where
  "towerGame =
     keys 2 ''ArrowLeft'' Type_O @ keys 19 ''ArrowDown'' Type_O @
     keys 1 ''ArrowUp'' Type_I @ keys 17 ''ArrowDown'' Type_I @
     keys 4 ''ArrowRight'' Type_I @ keys 19 ''ArrowDown'' Type_I @
     keys 1 ''ArrowUp'' Type_I @ keys 1 ''ArrowRight'' Type_I @ keys 17 ''ArrowDown'' Type_I @
     keys 1 ''ArrowUp'' Type_I @ keys 1 ''ArrowRight'' Type_I @ keys 13 ''ArrowDown'' Type_I @
     keys 1 ''ArrowUp'' Type_I @ keys 1 ''ArrowRight'' Type_I @ keys 9 ''ArrowDown'' Type_I @
     keys 1 ''ArrowUp'' Type_O @ keys 1 ''ArrowRight'' Type_O @ keys 5 ''ArrowDown'' Type_O @
     keys 1 ''ArrowUp'' Type_I @ keys 1 ''ArrowRight'' Type_I @ keys 1 ''ArrowDown'' Type_I @
     keys 4 ''ArrowLeft'' Type_T @ keys 20 ''ArrowDown'' Type_T @
     [TimeoutFires Type_T]"

definition towerBoard :: "int list list" where
  "towerBoard =
     replicate 16 [0, 0, 0, 0, 0, 0, 0, 1, 0, 0] @
     replicate 2 [0, 0, 0, 0, 0, 0, 1, 1, 0, 0] @
     [[1, 1, 0, 0, 0, 0, 1, 1, 1, 1], [1, 1, 1, 1, 1, 1, 1, 1, 1, 1]]"

definition collapsedTower :: "int list list" where
  "collapsedTower =
     [[0, 0, 0, 0, 0, 0, 0, 0, 0, 0]] @
     replicate 16 [0, 0, 0, 0, 0, 0, 0, 1, 0, 0] @
     replicate 2 [0, 0, 0, 0, 0, 0, 1, 1, 0, 0] @
     [[1, 1, 0, 0, 0, 0, 1, 1, 1, 1]]"

definition playAgainShown :: Session where
  "playAgainShown =
     \<lparr>live = \<lparr>board = collapsedTower, currentPiece = TETROMINOES Type_I,
              currentPosition = \<lparr>row = 0, col = 4\<rparr>, nextPiece = TETROMINOES Type_T,
              score = 100, isGameOver = True, isPaused = False\<rparr>,
      pending =
        [\<lparr>delay = 800,
          capturedState =
            \<lparr>board = towerBoard, currentPiece = TETROMINOES Type_O,
             currentPosition = \<lparr>row = 18, col = 0\<rparr>, nextPiece = TETROMINOES Type_I,
             score = 0, isGameOver = False, isPaused = False\<rparr>,
          capturedBoard = collapsedTower,
          capturedLines = 1\<rparr>]\<rparr>"

subsection \<open>The invariant of a session\<close>

text \<open>
  Every board, published or captured by a timeout, is a grid of the data model; a
  captured board has no full row, and a published one has one only while a timeout is
  pending; the piece that is next, in the state and in every captured state, is one of
  the catalogue; the piece lies inside the board; and it fits unless the game is over
  or the board shows a full row.
\<close>

definition isCatalogPiece :: "Tetromino \<Rightarrow> bool" where
  "isCatalogPiece piece \<longleftrightarrow> (\<exists>t. piece = TETROMINOES t)"

definition timeoutInv :: "Timeout \<Rightarrow> bool" where
  "timeoutInv t \<longleftrightarrow>
     wf_board (capturedBoard t) \<and> \<not> hasFullRow (capturedBoard t) \<and>
     isCatalogPiece (nextPiece (capturedState t))"

definition sessionInv :: "Session \<Rightarrow> bool" where
  "sessionInv s \<longleftrightarrow>
     wf_board (board (live s)) \<and>
     list_all timeoutInv (pending s) \<and>
     (hasFullRow (board (live s)) \<longrightarrow> pending s \<noteq> []) \<and>
     isCatalogPiece (nextPiece (live s)) \<and>
     pieceInBounds (live s) \<and>
     (isGameOver (live s) \<or> hasFullRow (board (live s)) \<or> pieceFits (live s))"

section \<open>Facts about the primitives\<close>

lemma publish_simps [simp]:
  "publish noEffects g = g"
  "publish (throws e) g = g"
  "publish \<lparr>updates = [u], timeouts = ts, raised = r\<rparr> g = u g"
  by (simp_all add: publish_def applyUpdates_def noEffects_def throws_def)

lemma effects_simps [simp]:
  "timeouts noEffects = []" "raised noEffects = None" "updates noEffects = []"
  "timeouts (throws e) = []" "raised (throws e) = Some e" "updates (throws e) = []"
  by (simp_all add: noEffects_def throws_def)

lemma wf_board_nth:
  "wf_board b \<Longrightarrow> 0 \<le> r \<Longrightarrow> r < BOARD_HEIGHT \<Longrightarrow> int (length (b ! nat r)) = BOARD_WIDTH"
  by (auto simp: wf_board_def list_all_length)

lemma boardCell_wf:
  assumes "wf_board b" "0 \<le> r" "r < BOARD_HEIGHT" "0 \<le> c" "c < BOARD_WIDTH"
  shows "boardCell b r c = Inr (b ! nat r ! nat c \<noteq> 0)"
  using assms wf_board_nth[OF assms(1-3)] by (simp add: boardCell_def wf_board_def)

lemma isValidMove_cols_wf:
  assumes "wf_board b"
  shows "isValidMove_cols b position r c0 cells =
     Inr (\<forall>j < length cells. cells ! j \<noteq> 0 \<longrightarrow>
        0 \<le> row position + r \<and> row position + r < BOARD_HEIGHT \<and>
        0 \<le> col position + (c0 + int j) \<and> col position + (c0 + int j) < BOARD_WIDTH \<and>
        b ! nat (row position + r) ! nat (col position + (c0 + int j)) = 0)"
proof (induction cells arbitrary: c0)
  case Nil
  show ?case by simp
next
  case (Cons cell cells)
  have shift: "\<And>j. c0 + 1 + int j = c0 + int (Suc j)" by simp
  show ?case
    using boardCell_wf[OF assms, of "row position + r" "col position + c0"]
    by (auto simp add: Cons.IH Let_def All_less_Suc2 shift simp del: of_nat_Suc)
qed

lemma isValidMove_rows_wf:
  assumes "wf_board b"
  shows "isValidMove_rows b position r0 sh =
     Inr (\<forall>i < length sh. \<forall>j < length (sh ! i). sh ! i ! j \<noteq> 0 \<longrightarrow>
        0 \<le> row position + (r0 + int i) \<and> row position + (r0 + int i) < BOARD_HEIGHT \<and>
        0 \<le> col position + int j \<and> col position + int j < BOARD_WIDTH \<and>
        b ! nat (row position + (r0 + int i)) ! nat (col position + int j) = 0)"
proof (induction sh arbitrary: r0)
  case Nil
  show ?case by simp
next
  case (Cons shapeRow shapeRows)
  have shift: "\<And>i. r0 + 1 + int i = r0 + int (Suc i)" by simp
  show ?case
    by (auto simp add: Cons.IH isValidMove_cols_wf[OF assms] All_less_Suc2 shift
        simp del: of_nat_Suc)
qed

text \<open>On a grid of the data model \<open>isValidMove\<close> raises nothing and decides \<open>fitsAt\<close>.\<close>

lemma isValidMove_wf:
  "wf_board b \<Longrightarrow> isValidMove b piece position = Inr (fitsAt b (shape piece) position)"
  by (simp add: isValidMove_def isValidMove_rows_wf fitsAt_def)

lemma wf_board_update:
  assumes "wf_board b" "int (length newRow) = BOARD_WIDTH"
  shows "wf_board (b[k := newRow])"
  using assms set_update_subset_insert[of b k newRow]
  by (auto simp: wf_board_def list_all_iff)

lemma setCell_wf:
  assumes "wf_board b" "0 \<le> r" "r < BOARD_HEIGHT" "0 \<le> c" "c < BOARD_WIDTH"
  shows "setCell b r c = Inr (b[nat r := (b ! nat r)[nat c := 1]])"
  using assms wf_board_nth[OF assms(1-3)] by (simp add: setCell_def wf_board_def)

lemma mergePiece_cols_wf:
  assumes "wf_board b"
  shows "\<exists>b'. mergePiece_cols b position rowIndex colIndex cells = Inr b' \<and> wf_board b'"
  using assms
proof (induction cells arbitrary: b colIndex)
  case Nil
  then show ?case by simp
next
  case (Cons cell cells)
  show ?case
  proof (cases "cell \<noteq> 0 \<and> row position + rowIndex \<ge> 0 \<and> row position + rowIndex < BOARD_HEIGHT
      \<and> col position + colIndex \<ge> 0 \<and> col position + colIndex < BOARD_WIDTH")
    case True
    then have written: "setCell b (row position + rowIndex) (col position + colIndex) =
        Inr (b[nat (row position + rowIndex) :=
               (b ! nat (row position + rowIndex))[nat (col position + colIndex) := 1]])"
      using setCell_wf[OF Cons.prems] by simp
    have "wf_board (b[nat (row position + rowIndex) :=
               (b ! nat (row position + rowIndex))[nat (col position + colIndex) := 1]])"
      using True Cons.prems wf_board_nth[OF Cons.prems, of "row position + rowIndex"]
      by (intro wf_board_update) simp_all
    from Cons.IH[OF this] show ?thesis
      using True written by (simp add: Let_def)
  next
    case False
    then show ?thesis
      using Cons.IH[OF Cons.prems] by (auto simp: Let_def)
  qed
qed

lemma mergePiece_rows_wf:
  assumes "wf_board b"
  shows "\<exists>b'. mergePiece_rows b position rowIndex sh = Inr b' \<and> wf_board b'"
  using assms
proof (induction sh arbitrary: b rowIndex)
  case Nil
  then show ?case by simp
next
  case (Cons shapeRow shapeRows)
  from mergePiece_cols_wf[OF Cons.prems] obtain b1 where
    b1: "mergePiece_cols b position rowIndex 0 shapeRow = Inr b1" "wf_board b1"
    by blast
  from Cons.IH[OF b1(2)] show ?case
    by (simp add: b1(1))
qed

text \<open>On a grid of the data model the merge raises nothing and returns such a grid.\<close>

lemma mergePieceWithBoard_wf:
  "wf_board b \<Longrightarrow> \<exists>b'. mergePieceWithBoard b piece position = Inr b' \<and> wf_board b'"
  by (simp add: mergePieceWithBoard_def mergePiece_rows_wf)

lemma Ex_less_Suc2: "(\<exists>j < Suc n. P j) \<longleftrightarrow> P 0 \<or> (\<exists>j < n. P (Suc j))"
  using All_less_Suc2[of n "\<lambda>j. \<not> P j"] by blast

lemma mergePiece_cols_cells:
  assumes "wf_board b" "mergePiece_cols b position rowIndex colIndex cells = Inr b'"
    "0 \<le> r" "r < BOARD_HEIGHT" "0 \<le> c" "c < BOARD_WIDTH"
  shows "b' ! nat r ! nat c =
     (if \<exists>j < length cells. cells ! j \<noteq> 0 \<and> row position + rowIndex = r \<and>
           col position + (colIndex + int j) = c
      then 1 else b ! nat r ! nat c)"
  using assms(1,2)
proof (induction cells arbitrary: b colIndex)
  case Nil
  then show ?case by simp
next
  case (Cons cell cells)
  let ?nr = "row position + rowIndex" and ?nc = "col position + colIndex"
  let ?here = "cell \<noteq> 0 \<and> ?nr = r \<and> ?nc = c"
  let ?later = "\<exists>j < length cells. cells ! j \<noteq> 0 \<and> ?nr = r \<and>
      col position + (colIndex + 1 + int j) = c"
  have shift: "\<And>j. colIndex + int (Suc j) = colIndex + 1 + int j" by simp
  have split: "(\<exists>j < length (cell # cells). (cell # cells) ! j \<noteq> 0 \<and> ?nr = r \<and>
      col position + (colIndex + int j) = c) \<longleftrightarrow> ?here \<or> ?later"
    unfolding length_Cons Ex_less_Suc2 shift by simp
  show ?case
  proof (cases "cell \<noteq> 0 \<and> ?nr \<ge> 0 \<and> ?nr < BOARD_HEIGHT \<and> ?nc \<ge> 0 \<and> ?nc < BOARD_WIDTH")
    case True
    let ?b1 = "b[nat ?nr := (b ! nat ?nr)[nat ?nc := 1]]"
    have written: "setCell b ?nr ?nc = Inr ?b1"
      using setCell_wf[OF Cons.prems(1)] True by simp
    have wf1: "wf_board ?b1"
      using True Cons.prems(1) wf_board_nth[OF Cons.prems(1), of ?nr]
      by (intro wf_board_update) simp_all
    have rest: "mergePiece_cols ?b1 position rowIndex (colIndex + 1) cells = Inr b'"
      using Cons.prems(2) True written by (simp add: Let_def)
    have lenb: "nat r < length b" "nat ?nr < length b"
      using Cons.prems(1) assms(3,4) True by (simp_all add: wf_board_def nat_less_iff)
    have lenr: "nat c < length (b ! nat r)"
      using wf_board_nth[OF Cons.prems(1) assms(3,4)] assms(5,6) by (simp add: nat_less_iff)
    have same_row: "nat ?nr = nat r \<longleftrightarrow> ?nr = r" and same_col: "nat ?nc = nat c \<longleftrightarrow> ?nc = c"
      using True assms(3,5) by auto
    have b1: "?b1 ! nat r ! nat c = (if ?nr = r \<and> ?nc = c then 1 else b ! nat r ! nat c)"
    proof (cases "?nr = r")
      case True
      then show ?thesis
        using lenb lenr same_col by (simp add: nth_list_update)
    next
      case False
      then show ?thesis
        using lenb same_row by (simp add: nth_list_update)
    qed
    have "b' ! nat r ! nat c = (if ?later then 1 else ?b1 ! nat r ! nat c)"
      using Cons.IH[OF wf1 rest] .
    then show ?thesis
      unfolding split b1 using True by auto
  next
    case False
    then have rest: "mergePiece_cols b position rowIndex (colIndex + 1) cells = Inr b'"
      using Cons.prems(2) by (auto simp: Let_def split: if_splits)
    have "\<not> ?here"
      using False assms(3-6) by blast
    moreover have "b' ! nat r ! nat c = (if ?later then 1 else b ! nat r ! nat c)"
      using Cons.IH[OF Cons.prems(1) rest] .
    ultimately show ?thesis
      unfolding split by auto
  qed
qed

lemma mergePiece_rows_cells:
  assumes "wf_board b" "mergePiece_rows b position rowIndex sh = Inr b'"
    "0 \<le> r" "r < BOARD_HEIGHT" "0 \<le> c" "c < BOARD_WIDTH"
  shows "b' ! nat r ! nat c =
     (if \<exists>i < length sh. \<exists>j < length (sh ! i). sh ! i ! j \<noteq> 0 \<and>
           row position + (rowIndex + int i) = r \<and> col position + int j = c
      then 1 else b ! nat r ! nat c)"
  using assms(1,2)
proof (induction sh arbitrary: b rowIndex)
  case Nil
  then show ?case by simp
next
  case (Cons shapeRow shapeRows)
  let ?here = "\<exists>j < length shapeRow. shapeRow ! j \<noteq> 0 \<and> row position + rowIndex = r \<and>
      col position + (0 + int j) = c"
  let ?later = "\<exists>i < length shapeRows. \<exists>j < length (shapeRows ! i). shapeRows ! i ! j \<noteq> 0 \<and>
      row position + (rowIndex + 1 + int i) = r \<and> col position + int j = c"
  have shift: "\<And>i. rowIndex + int (Suc i) = rowIndex + 1 + int i" by simp
  have split: "(\<exists>i < length (shapeRow # shapeRows). \<exists>j < length ((shapeRow # shapeRows) ! i).
      (shapeRow # shapeRows) ! i ! j \<noteq> 0 \<and> row position + (rowIndex + int i) = r \<and>
      col position + int j = c) \<longleftrightarrow> ?here \<or> ?later"
    unfolding length_Cons Ex_less_Suc2 shift by simp
  from mergePiece_cols_wf[OF Cons.prems(1)] obtain b1 where
    b1: "mergePiece_cols b position rowIndex 0 shapeRow = Inr b1" and wf1: "wf_board b1"
    by blast
  have rest: "mergePiece_rows b1 position (rowIndex + 1) shapeRows = Inr b'"
    using Cons.prems(2) b1 by simp
  have "b' ! nat r ! nat c = (if ?later then 1 else b1 ! nat r ! nat c)"
    using Cons.IH[OF wf1 rest] .
  moreover have "b1 ! nat r ! nat c = (if ?here then 1 else b ! nat r ! nat c)"
    using mergePiece_cols_cells[OF Cons.prems(1) b1 assms(3-6)] .
  ultimately show ?case
    unfolding split by auto
qed

text \<open>
  On a grid of the data model the merged board holds 1 where a filled cell of the piece
  lies and the cell of the board everywhere else.
\<close>

lemma mergePieceWithBoard_cells:
  assumes "wf_board b" "mergePieceWithBoard b piece position = Inr b'"
    "0 \<le> r" "r < BOARD_HEIGHT" "0 \<le> c" "c < BOARD_WIDTH"
  shows "b' ! nat r ! nat c =
     (if \<exists>i < length (shape piece). \<exists>j < length (shape piece ! i). shape piece ! i ! j \<noteq> 0 \<and>
           row position + int i = r \<and> col position + int j = c
      then 1 else b ! nat r ! nat c)"
  using mergePiece_rows_cells[OF assms(1) assms(2)[unfolded mergePieceWithBoard_def] assms(3-6)]
  by simp

lemma clearedRowsFrom_eq:
  "clearedRowsFrom k b = map (\<lambda>i. k + i) (filter (\<lambda>i. isFullRow (b ! i)) [0..<length b])"
proof (induction b arbitrary: k)
  case Nil
  show ?case by simp
next
  case (Cons boardRow boardRows)
  have "[0..<length (boardRow # boardRows)] = 0 # map Suc [0..<length boardRows]"
    by (simp add: upt_conv_Cons map_Suc_upt del: upt_Suc)
  then show ?case
    by (simp add: Cons.IH filter_map comp_def del: upt_Suc)
qed

lemma length_clearedRowsFrom:
  "length (clearedRowsFrom k b) = length (filter isFullRow b)"
  by (induction b arbitrary: k) simp_all

lemma full_and_kept_rows:
  "wf_board b \<Longrightarrow>
   length (filter isFullRow b) + length (filter (\<lambda>boardRow. \<not> isFullRow boardRow) b) = 20"
  using sum_length_filter_compl[of isFullRow b]
  by (simp add: wf_board_def BOARD_HEIGHT_def)

lemma clearLines_wf:
  assumes "wf_board b"
  shows "clearLines b =
     Inr \<lparr>newBoard = replicate (length (filter isFullRow b)) (replicate 10 0) @
                       filter (\<lambda>boardRow. \<not> isFullRow boardRow) b,
          linesCleared = int (length (filter isFullRow b)),
          clearedRows = filter (\<lambda>i. isFullRow (b ! i)) [0..<length b]\<rparr>"
proof -
  have "BOARD_HEIGHT - int (length (filter (\<lambda>boardRow. \<not> isFullRow boardRow) b)) =
      int (length (filter isFullRow b))"
    using full_and_kept_rows[OF assms] by (simp add: BOARD_HEIGHT_def)
  then show ?thesis
    by (simp add: clearLines_def Let_def clearedRowsFrom_eq BOARD_WIDTH_def)
qed

lemma wf_board_clearLines:
  assumes "wf_board b" "clearLines b = Inr res"
  shows "wf_board (newBoard res)"
  using assms full_and_kept_rows[OF assms(1)] unfolding clearLines_wf[OF assms(1)]
  by (auto simp: wf_board_def BOARD_HEIGHT_def BOARD_WIDTH_def list_all_iff)

lemma no_full_row:
  assumes "\<not> hasFullRow b"
  shows "filter isFullRow b = []"
    and "filter (\<lambda>boardRow. \<not> isFullRow boardRow) b = b"
    and "filter (\<lambda>i. isFullRow (b ! i)) [0..<length b] = []"
  using assms by (auto simp: hasFullRow_def list_ex_iff filter_empty_conv)

lemma some_full_row:
  assumes "hasFullRow b"
  shows "filter (\<lambda>i. isFullRow (b ! i)) [0..<length b] \<noteq> []"
    and "0 < length (filter isFullRow b)"
proof -
  from assms obtain i where "i < length b" "isFullRow (b ! i)"
    by (auto simp: hasFullRow_def list_ex_iff in_set_conv_nth)
  then show "filter (\<lambda>i. isFullRow (b ! i)) [0..<length b] \<noteq> []"
    by (auto simp: filter_empty_conv)
  show "0 < length (filter isFullRow b)"
    using assms by (auto simp: hasFullRow_def list_ex_iff filter_empty_conv)
qed

lemma spawnPosition_eq: "spawnPosition = \<lparr>row = 0, col = 4\<rparr>"
  by (simp add: spawnPosition_def BOARD_WIDTH_def)

text \<open>On a square shape \<open>rotatePiece\<close> raises nothing.\<close>

lemma rotatePiece_square:
  assumes "squareShape (shape p)"
  shows "rotatePiece p =
     Inr (p\<lparr>shape := map (\<lambda>index. rev (map (\<lambda>shapeRow. shapeRow ! index) (shape p)))
                         [0..<length (shape p)]\<rparr>)"
proof -
  obtain first rest where sh: "shape p = first # rest"
    using assms by (cases "shape p") (auto simp: squareShape_def)
  have len: "\<forall>shapeRow \<in> set (shape p). length shapeRow = length (shape p)"
    using assms by (simp add: squareShape_def list_all_iff)
  then have "length first = length (shape p)"
    by (simp add: sh)
  moreover have "list_all (\<lambda>shapeRow. length first \<le> length shapeRow) (shape p)"
    using len \<open>length first = length (shape p)\<close> by (simp add: list_all_iff)
  ultimately show ?thesis
    using sh by (simp add: rotatePiece_def del: upt_Suc)
qed

lemma wf_createEmptyBoard: "wf_board createEmptyBoard"
  by (simp add: wf_board_def createEmptyBoard_def BOARD_HEIGHT_def BOARD_WIDTH_def
      list_all_iff)

lemma wf_board_examples:
  "wf_board settledO" "wf_board gapBoard" "wf_board filledBoard" "wf_board collapsedBoard"
  "wf_board twoFullRows" "wf_board stackedBoard"
  by code_simp+

section \<open>Facts about the hard drop\<close>

text \<open>
  On a grid of the data model the loop of \<open>hardDrop\<close> raises nothing, and the position
  it returns is in the column it started from, not above the start, valid unless it is
  the start itself, and has no valid position one row below it.
\<close>

lemma hardDrop_loop_no_error:
  assumes "hardDrop_loop b piece start = Some res" "wf_board b"
  shows "\<exists>final. res = Inr final"
proof -
  have "wf_board b \<longrightarrow> (\<exists>final. res = Inr final)"
  proof (rule hardDrop_loop.raw_induct
      [where P = "\<lambda>b piece start res. wf_board b \<longrightarrow> (\<exists>final. res = Inr final)"])
    show "hardDrop_loop b piece start = Some res" by fact
  next
    fix loop :: "int list list \<Rightarrow> Tetromino \<Rightarrow> Position \<Rightarrow> (error + Position) option"
    fix b piece newPosition res
    assume IH: "\<And>b piece newPosition res. loop b piece newPosition = Some res \<Longrightarrow>
        wf_board b \<longrightarrow> (\<exists>final. res = Inr final)"
    assume body: "(case isValidMove b piece (newPosition\<lparr>row := row newPosition + 1\<rparr>) of
        Inl e \<Rightarrow> Some (Inl e)
      | Inr ok \<Rightarrow>
          if ok then loop b piece (newPosition\<lparr>row := row newPosition + 1\<rparr>)
          else Some (Inr newPosition)) = Some res"
    show "wf_board b \<longrightarrow> (\<exists>final. res = Inr final)"
    proof
      assume wf: "wf_board b"
      show "\<exists>final. res = Inr final"
      proof (cases "fitsAt b (shape piece) (newPosition\<lparr>row := row newPosition + 1\<rparr>)")
        case True
        then have "loop b piece (newPosition\<lparr>row := row newPosition + 1\<rparr>) = Some res"
          using body wf by (simp add: isValidMove_wf)
        from IH[OF this] wf show ?thesis by simp
      next
        case False
        then show ?thesis
          using body wf by (auto simp: isValidMove_wf)
      qed
    qed
  qed
  then show ?thesis using assms(2) by simp
qed

lemma hardDrop_loop_resting:
  assumes "hardDrop_loop b piece start = Some (Inr final)" "wf_board b"
  shows "col final = col start \<and> row start \<le> row final \<and>
         (final = start \<or> fitsAt b (shape piece) final) \<and>
         \<not> fitsAt b (shape piece) (final\<lparr>row := row final + 1\<rparr>)"
proof -
  let ?P = "\<lambda>b piece start (res :: error + Position). wf_board b \<longrightarrow> (\<forall>final. res = Inr final \<longrightarrow>
         col final = col start \<and> row start \<le> row final \<and>
         (final = start \<or> fitsAt b (shape piece) final) \<and>
         \<not> fitsAt b (shape piece) (final\<lparr>row := row final + 1\<rparr>))"
  have "?P b piece start (Inr final)"
  proof (rule hardDrop_loop.raw_induct[where P = ?P and y = "Inr final"])
    show "hardDrop_loop b piece start = Some (Inr final)" by fact
  next
    fix loop :: "int list list \<Rightarrow> Tetromino \<Rightarrow> Position \<Rightarrow> (error + Position) option"
    fix b piece newPosition res
    assume IH: "\<And>b piece newPosition res. loop b piece newPosition = Some res \<Longrightarrow>
        ?P b piece newPosition res"
    assume body: "(case isValidMove b piece (newPosition\<lparr>row := row newPosition + 1\<rparr>) of
        Inl e \<Rightarrow> Some (Inl e)
      | Inr ok \<Rightarrow>
          if ok then loop b piece (newPosition\<lparr>row := row newPosition + 1\<rparr>)
          else Some (Inr newPosition)) = Some res"
    show "?P b piece newPosition res"
    proof (intro impI allI)
      fix final
      assume wf: "wf_board b" and res: "res = Inr final"
      show "col final = col newPosition \<and> row newPosition \<le> row final \<and>
         (final = newPosition \<or> fitsAt b (shape piece) final) \<and>
         \<not> fitsAt b (shape piece) (final\<lparr>row := row final + 1\<rparr>)"
      proof (cases "fitsAt b (shape piece) (newPosition\<lparr>row := row newPosition + 1\<rparr>)")
        case True
        then have "loop b piece (newPosition\<lparr>row := row newPosition + 1\<rparr>) = Some (Inr final)"
          using body wf res by (simp add: isValidMove_wf)
        from IH[OF this] wf True show ?thesis
          by auto
      next
        case False
        then have "final = newPosition"
          using body wf res by (simp add: isValidMove_wf)
        then show ?thesis using False by simp
      qed
    qed
  qed
  then show ?thesis using assms(2) by simp
qed

lemma publish_two [simp]:
  "publish \<lparr>updates = [u, v], timeouts = ts, raised = r\<rparr> g = v (u g)"
  by (simp add: publish_def applyUpdates_def)

lemma publish_Cons:
  "publish \<lparr>updates = u # us, timeouts = ts, raised = r\<rparr> g =
     publish \<lparr>updates = us, timeouts = ts, raised = r\<rparr> (u g)"
  by (simp add: publish_def applyUpdates_def)

lemma hardDrop_as_moveDown:
  assumes "wf_board (board g)" "hardDrop rnd g = Some eff"
  shows "publish eff g = publish (moveDown rnd g) g \<and>
         timeouts eff = timeouts (moveDown rnd g) \<and> raised eff = raised (moveDown rnd g)"
proof (cases "isGameOver g \<or> isPaused g")
  case True
  then show ?thesis
    using assms(2) by (auto simp: hardDrop_def moveDown_def)
next
  case False
  let ?next = "(currentPosition g)\<lparr>row := row (currentPosition g) + 1\<rparr>"
  show ?thesis
  proof (cases "fitsAt (board g) (shape (currentPiece g)) ?next")
    case fits: True
    have down: "moveDown rnd g =
        \<lparr>updates = [\<lambda>prev. prev\<lparr>currentPosition := ?next\<rparr>], timeouts = [], raised = None\<rparr>"
      using False fits assms(1) by (simp add: moveDown_def Let_def isValidMove_wf)
    from assms(2) False obtain res where
      loop: "hardDrop_loop (board g) (currentPiece g) (currentPosition g) = Some res"
      by (auto simp: hardDrop_def split: option.splits)
    from hardDrop_loop_no_error[OF loop assms(1)] obtain final where "res = Inr final"
      by blast
    then have "eff = \<lparr>updates = [\<lambda>prev. prev\<lparr>currentPosition := final\<rparr>,
                                 \<lambda>prev. prev\<lparr>currentPosition := ?next\<rparr>],
                      timeouts = [], raised = None\<rparr>"
      using assms(2) False loop by (simp add: hardDrop_def down)
    then show ?thesis
      by (simp add: down)
  next
    case landed: False
    have "hardDrop_loop (board g) (currentPiece g) (currentPosition g) =
        Some (Inr (currentPosition g))"
      using landed assms(1) by (subst hardDrop_loop.simps) (simp add: isValidMove_wf)
    then have eff: "eff = \<lparr>updates = (\<lambda>prev. prev\<lparr>currentPosition := currentPosition g\<rparr>) #
                                   updates (moveDown rnd g),
                        timeouts = timeouts (moveDown rnd g),
                        raised = raised (moveDown rnd g)\<rparr>"
      using assms(2) False by (simp add: hardDrop_def Let_def)
    have "publish eff g = publish (moveDown rnd g) g"
      unfolding eff by (simp add: publish_def applyUpdates_def)
    then show ?thesis
      by (simp add: eff)
  qed
qed

text \<open>
  The loop ends whenever the shape has a filled cell: that cell cannot go below the
  last row.
\<close>

lemma hardDrop_loop_returns:
  assumes "wf_board b" "i < length (shape piece)" "j < length (shape piece ! i)"
    "shape piece ! i ! j \<noteq> 0"
  shows "\<exists>final. hardDrop_loop b piece start = Some (Inr final)"
proof (induction "nat (BOARD_HEIGHT - row start - int i)" arbitrary: start rule: less_induct)
  case less
  let ?next = "start\<lparr>row := row start + 1\<rparr>"
  show ?case
  proof (cases "fitsAt b (shape piece) ?next")
    case True
    then have "row ?next + int i < BOARD_HEIGHT"
      using assms(2-4) by (auto simp: fitsAt_def)
    then have "nat (BOARD_HEIGHT - row ?next - int i) < nat (BOARD_HEIGHT - row start - int i)"
      by simp
    from less[OF this] obtain final where "hardDrop_loop b piece ?next = Some (Inr final)"
      by blast
    then have "hardDrop_loop b piece start = Some (Inr final)"
      using True assms(1) by (subst hardDrop_loop.simps) (simp add: isValidMove_wf)
    then show ?thesis by blast
  next
    case False
    then have "hardDrop_loop b piece start = Some (Inr start)"
      using assms(1) by (subst hardDrop_loop.simps) (simp add: isValidMove_wf)
    then show ?thesis by blast
  qed
qed

section \<open>Facts about sessions\<close>

lemma run_append:
  "run (es @ es') s = (case run es s of None \<Rightarrow> None | Some s' \<Rightarrow> run es' s')"
  by (induction es arbitrary: s) (simp_all split: option.split)

lemma reachable_run: "reachable s \<Longrightarrow> run es s = Some s' \<Longrightarrow> reachable s'"
proof (induction es arbitrary: s)
  case Nil
  then show ?case by simp
next
  case (Cons e es)
  then show ?case
    by (auto split: option.splits intro: reachable_step)
qed

lemma run_toppingOut: "run toppingOut (initialSession Type_I Type_I) = Some toppedOut"
  by code_simp

lemma reachable_toppedOut: "reachable toppedOut"
  using reachable_run[OF reachable_init run_toppingOut] .

lemma run_firstSettled:
  "run (replicate 19 (CallMoveDown Type_T)) (initialSession Type_O Type_I) = Some firstSettled"
  by code_simp

lemma reachable_firstSettled: "reachable firstSettled"
  using reachable_run[OF reachable_init run_firstSettled] .

lemma run_fillingRow: "run fillingRow (initialSession Type_I Type_I) = Some clearing"
  by code_simp

lemma reachable_clearing: "reachable clearing"
  using reachable_run[OF reachable_init run_fillingRow] .

lemma run_towerGame: "run towerGame (initialSession Type_I Type_I) = Some playAgainShown"
  by code_simp

lemma reachable_playAgainShown: "reachable playAgainShown"
  using reachable_run[OF reachable_init run_towerGame] .

text \<open>
  A timeout that fires takes every field but \<open>isPaused\<close> from what its closure
  captured, whatever state it finds.
\<close>

lemma timeout_overwrites:
  assumes "wf_board (capturedBoard t)"
  shows "step (TimeoutFires rnd) \<lparr>live = prev, pending = t # ts\<rparr> =
     Some \<lparr>live =
             \<lparr>board = capturedBoard t,
              currentPiece = nextPiece (capturedState t),
              currentPosition = \<lparr>row = 0, col = 4\<rparr>,
              nextPiece = getRandomTetromino rnd,
              score = score (capturedState t) + capturedLines t * 100,
              isGameOver =
                (isValidMove (capturedBoard t) (nextPiece (capturedState t))
                   \<lparr>row = 0, col = 4\<rparr> \<noteq> Inr True),
              isPaused = isPaused prev\<rparr>,
           pending = ts\<rparr>"
  by (simp add: phaseTwo_def Let_def spawnPosition_eq isValidMove_wf[OF assms]
      commitSettle_def)

text \<open>A reset leaves every pending timeout where it is.\<close>

lemma reset_keeps_pending:
  "step (CallResetGame r1 r2) s = Some \<lparr>live = initialState r1 r2, pending = pending s\<rparr>"
  by (simp add: resetGame_def perform_def)

text \<open>
  The same with the reset called on the hook while the first timeout is still pending:
  the O piece has completed the bottom row, the state is reset, and the timeout that
  fires puts the old board and a score of 100 back.
\<close>

lemma stale_timeout_after_early_reset:
  "run [CallResetGame Type_L Type_J, TimeoutFires Type_S] clearing =
     Some \<lparr>live =
             \<lparr>board = collapsedBoard, currentPiece = TETROMINOES Type_T,
              currentPosition = \<lparr>row = 0, col = 4\<rparr>, nextPiece = TETROMINOES Type_S,
              score = 100, isGameOver = False, isPaused = False\<rparr>,
           pending = []\<rparr>"
  by code_simp

section \<open>The invariant holds in every reachable session\<close>

lemma no_full_row_clearLines:
  assumes "wf_board b" "clearLines b = Inr res"
  shows "\<not> hasFullRow (newBoard res)"
  using assms(2) unfolding clearLines_wf[OF assms(1)]
  by (auto simp: hasFullRow_def list_ex_iff isFullRow_def list_all_iff)

lemma no_full_row_createEmptyBoard: "\<not> hasFullRow createEmptyBoard"
  by code_simp

lemma spawn_fits: "fitsAt createEmptyBoard (shape (TETROMINOES t)) spawnPosition"
proof -
  have "isValidMove createEmptyBoard (TETROMINOES t) spawnPosition = Inr True"
    by (cases t; hypsubst_thin; code_simp)
  then show ?thesis
    by (simp add: isValidMove_wf[OF wf_createEmptyBoard])
qed

lemma fitsAt_inBounds: "fitsAt b sh position \<Longrightarrow> inBoundsAt sh position"
  by (simp add: fitsAt_def inBoundsAt_def)

lemma spawn_inBounds: "isCatalogPiece piece \<Longrightarrow> inBoundsAt (shape piece) spawnPosition"
  using spawn_fits fitsAt_inBounds by (auto simp: isCatalogPiece_def)

lemma catalog_getRandomTetromino: "isCatalogPiece (getRandomTetromino rnd)"
  by (auto simp: isCatalogPiece_def getRandomTetromino_def)

lemma sessionInv_init: "sessionInv (initialSession r1 r2)"
  using spawn_fits[of r1] fitsAt_inBounds[OF spawn_fits[of r1]]
  by (simp add: sessionInv_def initialSession_def initialState_def wf_createEmptyBoard
      pieceFits_def pieceInBounds_def getRandomTetromino_def no_full_row_createEmptyBoard
      catalog_getRandomTetromino[unfolded getRandomTetromino_def])

lemma sessionInv_settle:
  assumes "wf_board cb" "list_all timeoutInv ts" "\<not> hasFullRow cb"
    "isValidMove cb next spawnPosition = Inr valid" "isCatalogPiece next"
  shows "sessionInv \<lparr>live = commitSettle cb next spawnPosition rnd newScore (\<not> valid) g,
                     pending = ts\<rparr>"
  using assms spawn_inBounds[OF assms(5)] catalog_getRandomTetromino[of rnd]
  by (auto simp: sessionInv_def commitSettle_def pieceFits_def pieceInBounds_def
      isValidMove_wf)

lemma sessionInv_moveDown:
  assumes "sessionInv s"
  shows "sessionInv (perform (moveDown rnd (live s)) s)"
proof -
  let ?g = "live s"
  let ?next = "(currentPosition ?g)\<lparr>row := row (currentPosition ?g) + 1\<rparr>"
  have wf: "wf_board (board ?g)" and timers: "list_all timeoutInv (pending s)"
    and cat: "isCatalogPiece (nextPiece ?g)" and inb: "pieceInBounds ?g"
    using assms by (simp_all add: sessionInv_def)
  have same: "\<lparr>live = live s, pending = pending s\<rparr> = s" by simp
  show ?thesis
  proof (cases "isGameOver ?g \<or> isPaused ?g")
    case True
    then show ?thesis
      using assms by (auto simp: moveDown_def perform_def same)
  next
    case running: False
    show ?thesis
    proof (cases "fitsAt (board ?g) (shape (currentPiece ?g)) ?next")
      case True
      then show ?thesis
        using running wf assms fitsAt_inBounds[OF True]
        by (simp add: moveDown_def perform_def Let_def isValidMove_wf sessionInv_def
            pieceFits_def pieceInBounds_def)
    next
      case landed: False
      from mergePieceWithBoard_wf[OF wf] obtain merged where
        merged: "mergePieceWithBoard (board ?g) (currentPiece ?g) (currentPosition ?g) =
          Inr merged" and wfm: "wf_board merged"
        by blast
      obtain cleared where cleared: "clearLines merged = Inr cleared"
        by (simp add: clearLines_wf[OF wfm])
      have wfc: "wf_board (newBoard cleared)"
        using wf_board_clearLines[OF wfm cleared] .
      have nfc: "\<not> hasFullRow (newBoard cleared)"
        using no_full_row_clearLines[OF wfm cleared] .
      show ?thesis
      proof (cases "hasFullRow merged")
        case True
        then have "clearedRows cleared \<noteq> []"
          using cleared some_full_row(1)[OF True] by (auto simp: clearLines_wf[OF wfm])
        then show ?thesis
          using running landed wf merged cleared True wfm wfc nfc timers cat inb
          by (simp add: moveDown_def perform_def Let_def isValidMove_wf sessionInv_def
              timeoutInv_def pieceInBounds_def)
      next
        case False
        then have none: "clearedRows cleared = []"
          using cleared by (auto simp: clearLines_wf[OF wfm] no_full_row)
        obtain valid where valid:
          "isValidMove (newBoard cleared) (nextPiece ?g) spawnPosition = Inr valid"
          by (simp add: isValidMove_wf[OF wfc])
        show ?thesis
          using running landed wf merged cleared none valid
            sessionInv_settle[OF wfc timers nfc valid cat]
          by (simp add: moveDown_def perform_def Let_def isValidMove_wf)
      qed
    qed
  qed
qed

lemma sessionInv_moveLeft:
  assumes "sessionInv s"
  shows "sessionInv (perform (moveLeft (live s)) s)"
proof -
  have same: "\<lparr>live = live s, pending = pending s\<rparr> = s" by simp
  show ?thesis
    using assms
    by (auto simp: moveLeft_def perform_def Let_def isValidMove_wf sessionInv_def same
        pieceFits_def pieceInBounds_def dest: fitsAt_inBounds)
qed

lemma sessionInv_moveRight:
  assumes "sessionInv s"
  shows "sessionInv (perform (moveRight (live s)) s)"
proof -
  have same: "\<lparr>live = live s, pending = pending s\<rparr> = s" by simp
  show ?thesis
    using assms
    by (auto simp: moveRight_def perform_def Let_def isValidMove_wf sessionInv_def same
        pieceFits_def pieceInBounds_def dest: fitsAt_inBounds)
qed

lemma sessionInv_rotate:
  assumes "sessionInv s"
  shows "sessionInv (perform (rotate_cmd (live s)) s)"
proof -
  have same: "\<lparr>live = live s, pending = pending s\<rparr> = s" by simp
  show ?thesis
    using assms
    by (auto simp: rotate_cmd_def perform_def Let_def isValidMove_wf sessionInv_def same
        pieceFits_def pieceInBounds_def split: sum.splits dest: fitsAt_inBounds)
qed

lemma sessionInv_hardDrop:
  assumes "sessionInv s" "hardDrop rnd (live s) = Some eff"
  shows "sessionInv (perform eff s)"
proof -
  have "wf_board (board (live s))"
    using assms(1) by (simp add: sessionInv_def)
  from hardDrop_as_moveDown[OF this assms(2)]
  have "perform eff s = perform (moveDown rnd (live s)) s"
    by (simp add: perform_def)
  then show ?thesis
    using sessionInv_moveDown[OF assms(1)] by simp
qed

lemma sessionInv_reset:
  assumes "sessionInv s"
  shows "sessionInv (perform (resetGame r1 r2) s)"
  using assms sessionInv_init[of r1 r2]
  by (auto simp: resetGame_def perform_def sessionInv_def initialSession_def
      initialState_def no_full_row_createEmptyBoard)

lemma sessionInv_noEffects: "sessionInv s \<Longrightarrow> sessionInv (perform noEffects s)"
  by (simp add: perform_def sessionInv_def)

lemma sessionInv_key:
  assumes "sessionInv s" "handleKeyPress key rnd (live s) = Some eff"
  shows "sessionInv (perform eff s)"
proof (cases "key = ''Enter''")
  case True
  then have "eff = \<lparr>updates = [\<lambda>prev. prev\<lparr>isPaused := \<not> isPaused prev\<rparr>],
                    timeouts = [], raised = None\<rparr>"
    using assms(2) by (simp add: handleKeyPress_def)
  then show ?thesis
    using assms(1) by (simp add: perform_def sessionInv_def pieceFits_def pieceInBounds_def)
next
  case False
  then show ?thesis
    using assms sessionInv_moveLeft[OF assms(1)] sessionInv_moveRight[OF assms(1)]
      sessionInv_moveDown[OF assms(1), of rnd] sessionInv_rotate[OF assms(1)]
      sessionInv_hardDrop[OF assms(1), of rnd eff] sessionInv_noEffects[OF assms(1)]
    by (auto simp: handleKeyPress_def split: if_splits)
qed

lemma sessionInv_tick:
  assumes "sessionInv s"
  shows "sessionInv (perform (gameLoop rnd (live s)) s)"
  using sessionInv_moveDown[OF assms, of rnd] sessionInv_noEffects[OF assms]
  by (simp add: gameLoop_def)

lemma sessionInv_fire:
  assumes "sessionInv s" "step (TimeoutFires rnd) s = Some s'"
  shows "sessionInv s'"
proof (cases "pending s")
  case Nil
  then show ?thesis using assms by simp
next
  case (Cons t ts)
  have wft: "wf_board (capturedBoard t)" and nft: "\<not> hasFullRow (capturedBoard t)"
    and cat: "isCatalogPiece (nextPiece (capturedState t))"
    and rest: "list_all timeoutInv ts"
    using assms(1) Cons by (simp_all add: sessionInv_def timeoutInv_def)
  obtain valid where valid:
    "isValidMove (capturedBoard t) (nextPiece (capturedState t)) spawnPosition = Inr valid"
    by (simp add: isValidMove_wf[OF wft])
  have "s' = \<lparr>live = commitSettle (capturedBoard t) (nextPiece (capturedState t)) spawnPosition
                 rnd (score (capturedState t) + capturedLines t * 100) (\<not> valid) (live s),
              pending = ts\<rparr>"
    using assms(2) Cons valid by (simp add: phaseTwo_def Let_def)
  then show ?thesis
    using sessionInv_settle[OF wft rest nft valid cat] by simp
qed

lemma sessionInv_step:
  assumes "sessionInv s" "step e s = Some s'"
  shows "sessionInv s'"
proof (cases e)
  case (TimeoutFires rnd)
  then show ?thesis using sessionInv_fire[OF assms(1)] assms(2) by simp
next
  case (KeyDown key rnd)
  then show ?thesis using sessionInv_key[OF assms(1)] assms(2) by auto
next
  case (CallHardDrop rnd)
  then show ?thesis using sessionInv_hardDrop[OF assms(1)] assms(2) by auto
qed (use assms sessionInv_moveLeft sessionInv_moveRight sessionInv_moveDown sessionInv_rotate
       sessionInv_reset sessionInv_tick in auto)

lemma reachable_sessionInv: "reachable s \<Longrightarrow> sessionInv s"
  by (induction rule: reachable.induct) (auto intro: sessionInv_init sessionInv_step)

lemma full_row_only_while_pending:
  assumes "reachable s" "hasFullRow (board (live s))"
  shows "pending s \<noteq> []"
  using reachable_sessionInv[OF assms(1)] assms(2) by (simp add: sessionInv_def)

text \<open>While no timeout is pending the board shows no full row, so the piece fits.\<close>

lemma piece_fits_when_idle:
  assumes "reachable s" "\<not> isGameOver (live s)" "pending s = []"
  shows "pieceFits (live s)"
  using reachable_sessionInv[OF assms(1)] assms(2,3) by (auto simp: sessionInv_def)

section \<open>The claims\<close>

text \<open>
  C1 fails on the code.  \<open>hardDrop\<close> finds the resting position and queues it, but then
  calls \<open>moveDown\<close>, which still reads the state of the render and not the queued
  position.  From the spawn position of an O piece on the empty board \<open>moveDown\<close>
  therefore sees a piece that can go down and queues row 1 on top of the resting
  position: the hard drop, called on the hook or by the space key, publishes the piece
  one row down and settles nothing, where calling \<open>moveDown\<close> until the landing leaves
  the O piece merged into rows 18 and 19.  On every board of the data model the hard
  drop publishes just what a single \<open>moveDown\<close> does (lemma \<open>hardDrop_as_moveDown\<close>).
\<close>

theorem hardDrop_moves_one_row:
  "hardDrop_loop createEmptyBoard (TETROMINOES Type_O) \<lparr>row = 0, col = 4\<rparr> =
     Some (Inr \<lparr>row = 18, col = 4\<rparr>) \<and>
   step (CallHardDrop Type_T) (initialSession Type_O Type_I) =
     Some \<lparr>live = (initialState Type_O Type_I)\<lparr>currentPosition := \<lparr>row = 1, col = 4\<rparr>\<rparr>,
           pending = []\<rparr> \<and>
   step (KeyDown '' '' Type_T) (initialSession Type_O Type_I) =
     Some \<lparr>live = (initialState Type_O Type_I)\<lparr>currentPosition := \<lparr>row = 1, col = 4\<rparr>\<rparr>,
           pending = []\<rparr> \<and>
   run (replicate 19 (CallMoveDown Type_T)) (initialSession Type_O Type_I) =
     Some firstSettled"
proof -
  have "hardDrop_loop createEmptyBoard (TETROMINOES Type_O) \<lparr>row = 0, col = 4\<rparr> =
     Some (Inr \<lparr>row = 18, col = 4\<rparr>)"
    by code_simp
  moreover have "step (CallHardDrop Type_T) (initialSession Type_O Type_I) =
     Some \<lparr>live = (initialState Type_O Type_I)\<lparr>currentPosition := \<lparr>row = 1, col = 4\<rparr>\<rparr>,
           pending = []\<rparr>"
    by code_simp
  moreover have "step (KeyDown '' '' Type_T) (initialSession Type_O Type_I) =
     Some \<lparr>live = (initialState Type_O Type_I)\<lparr>currentPosition := \<lparr>row = 1, col = 4\<rparr>\<rparr>,
           pending = []\<rparr>"
    by code_simp
  ultimately show ?thesis
    using run_firstSettled by blast
qed

text \<open>
  C2 as the code has it.  In every reachable session state the board has
  \<open>BOARD_HEIGHT\<close> rows of \<open>BOARD_WIDTH\<close> cells and every filled cell of \<open>currentPiece\<close>
  placed at \<open>currentPosition\<close> lies inside the board; and whenever \<open>isGameOver\<close> is
  false and the board shows no full row, every such cell also lies on an empty cell of
  the board.  Only this second half gives way in the two states the claim includes by
  name: the state published by a settle that sets \<open>isGameOver\<close>, and the state
  published in the first phase of a line clear, whose board shows the full row.
\<close>

theorem piece_in_bounds_and_fits:
  assumes "reachable s"
  shows "wf_board (board (live s)) \<and> pieceInBounds (live s) \<and>
         (\<not> isGameOver (live s) \<and> \<not> hasFullRow (board (live s)) \<longrightarrow> pieceFits (live s))"
proof -
  have inv: "sessionInv s"
    by (rule reachable_sessionInv[OF assms])
  have "wf_board (board (live s))" "pieceInBounds (live s)"
    "isGameOver (live s) \<or> hasFullRow (board (live s)) \<or> pieceFits (live s)"
    using inv by (simp_all add: sessionInv_def)
  then show ?thesis
    by blast
qed

text \<open>After the first O piece has settled, the I piece that comes in fits.\<close>

theorem piece_in_bounds_and_fits_witness:
  "reachable firstSettled \<and> \<not> isGameOver (live firstSettled) \<and>
   \<not> hasFullRow (board (live firstSettled)) \<and>
   wf_board (board (live firstSettled)) \<and> pieceInBounds (live firstSettled) \<and>
   pieceFits (live firstSettled)"
proof -
  have over: "\<not> isGameOver (live firstSettled)"
    by (simp add: firstSettled_def)
  have full: "\<not> hasFullRow (board (live firstSettled))"
    by code_simp
  show ?thesis
    using piece_in_bounds_and_fits[OF reachable_firstSettled] reachable_firstSettled
      over full
    by blast
qed

text \<open>
  The claim C2 as stated fails in both states it names.  When the fifth upright I piece
  has ended the game, the I piece that came in lies across the filled column; and while
  the bottom row is being cleared, the O piece that closed it lies on its own merged
  cells.  Both pieces lie inside the board: what fails is that their cells are empty on
  the board.
\<close>

theorem piece_overlaps_counterexample:
  "reachable toppedOut \<and> isGameOver (live toppedOut) \<and>
   pieceInBounds (live toppedOut) \<and> \<not> pieceFits (live toppedOut) \<and>
   reachable clearing \<and> pending clearing \<noteq> [] \<and>
   pieceInBounds (live clearing) \<and> \<not> pieceFits (live clearing)"
proof -
  have "isValidMove (board (live toppedOut)) (currentPiece (live toppedOut))
      (currentPosition (live toppedOut)) = Inr False"
    by code_simp
  moreover have "wf_board (board (live toppedOut))"
    by (simp add: toppedOut_def wf_board_examples)
  ultimately have over: "\<not> pieceFits (live toppedOut)"
    by (simp add: isValidMove_wf pieceFits_def)
  have "isValidMove (board (live clearing)) (currentPiece (live clearing))
      (currentPosition (live clearing)) = Inr False"
    by code_simp
  moreover have "wf_board (board (live clearing))"
    by (simp add: clearing_def wf_board_examples)
  ultimately have window: "\<not> pieceFits (live clearing)"
    by (simp add: isValidMove_wf pieceFits_def)
  have inside: "pieceInBounds (live toppedOut)" "pieceInBounds (live clearing)"
    using reachable_sessionInv[OF reachable_toppedOut]
      reachable_sessionInv[OF reachable_clearing]
    by (simp_all add: sessionInv_def)
  have "isGameOver (live toppedOut)" "pending clearing \<noteq> []"
    by (simp_all add: toppedOut_def clearing_def)
  then show ?thesis
    using over window inside reachable_toppedOut reachable_clearing by blast
qed

text \<open>
  C3 fails on the code.  \<open>resetGame\<close> replaces the state and nothing else: the hook
  keeps no handle of a timeout and never clears one.  In the game played above the
  first timeout has ended the game and the second is still pending.  The button
  \<open>Play Again\<close> resets the state; then the second timeout fires and overwrites the
  fresh state with the board, the piece, the position, the score and the \<open>isGameOver\<close>
  flag it computes from the state its closure captured before the reset: the new game
  is over before it began.
\<close>

theorem stale_timeout_after_reset:
  "run towerGame (initialSession Type_I Type_I) = Some playAgainShown \<and>
   isGameOver (live playAgainShown) \<and>
   step (CallResetGame Type_L Type_J) playAgainShown =
     Some \<lparr>live = initialState Type_L Type_J, pending = pending playAgainShown\<rparr> \<and>
   run [CallResetGame Type_L Type_J, TimeoutFires Type_S] playAgainShown =
     Some \<lparr>live =
             \<lparr>board = collapsedTower, currentPiece = TETROMINOES Type_I,
              currentPosition = \<lparr>row = 0, col = 4\<rparr>, nextPiece = TETROMINOES Type_S,
              score = 100, isGameOver = True, isPaused = False\<rparr>,
           pending = []\<rparr>"
proof -
  have "isGameOver (live playAgainShown)"
    by (simp add: playAgainShown_def)
  moreover have "run [CallResetGame Type_L Type_J, TimeoutFires Type_S] playAgainShown =
     Some \<lparr>live =
             \<lparr>board = collapsedTower, currentPiece = TETROMINOES Type_I,
              currentPosition = \<lparr>row = 0, col = 4\<rparr>, nextPiece = TETROMINOES Type_S,
              score = 100, isGameOver = True, isPaused = False\<rparr>,
           pending = []\<rparr>"
    by code_simp
  ultimately show ?thesis
    using run_towerGame reset_keeps_pending[of Type_L Type_J playAgainShown] by blast
qed

text \<open>
  C4 as the code has it.  The Enter branch of \<open>handleKeyPress\<close> has no guard: in every
  state, whether the game is over or not and whether it is paused or not, the key flips
  \<open>isPaused\<close> and changes nothing else.
\<close>

theorem togglePause_flips:
  "step (KeyDown ''Enter'' rnd) s =
     Some (s\<lparr>live := (live s)\<lparr>isPaused := \<not> isPaused (live s)\<rparr>\<rparr>)"
  by (simp add: handleKeyPress_def perform_def)

text \<open>
  The claim C4 as stated, that the toggle does nothing once the game is over, fails in
  the session in which the fifth upright I piece has ended the game: Enter still turns
  \<open>isPaused\<close> on.
\<close>

theorem togglePause_gameOver_counterexample:
  "reachable toppedOut \<and> isGameOver (live toppedOut) \<and>
   step (KeyDown ''Enter'' Type_I) toppedOut =
     Some (toppedOut\<lparr>live := (live toppedOut)\<lparr>isPaused := True\<rparr>\<rparr>) \<and>
   step (KeyDown ''Enter'' Type_I) toppedOut \<noteq> Some toppedOut"
proof -
  have "isGameOver (live toppedOut)" "\<not> isPaused (live toppedOut)"
    by (simp_all add: toppedOut_def)
  moreover have "step (KeyDown ''Enter'' Type_I) toppedOut =
      Some (toppedOut\<lparr>live := (live toppedOut)\<lparr>isPaused := True\<rparr>\<rparr>)"
    by (simp add: handleKeyPress_def perform_def toppedOut_def)
  moreover have "toppedOut\<lparr>live := (live toppedOut)\<lparr>isPaused := True\<rparr>\<rparr> \<noteq> toppedOut"
    by (simp add: toppedOut_def)
  ultimately show ?thesis
    using reachable_toppedOut by (simp del: step.simps)
qed

text \<open>
  C5.  Issued on a state of the data model with both flags false, \<open>moveDown\<close> makes one
  commit and sets no timeout.  When the position one row down is valid, the commit
  changes \<open>currentPosition.row\<close> to \<open>row + 1\<close> and nothing else.  When it is not and the
  merge of the piece at its position completes no row, the commit publishes the merged
  board, the former \<open>nextPiece\<close> as \<open>currentPiece\<close> at row 0, column 4, a freshly drawn
  \<open>nextPiece\<close>, the same score, and \<open>isGameOver\<close> true exactly when the new piece is not
  valid at the spawn position on the merged board.
\<close>

theorem moveDown_step_or_settle:
  assumes "\<not> isGameOver g" "\<not> isPaused g" "wf_board (board g)"
  shows
   "(isValidMove (board g) (currentPiece g)
        ((currentPosition g)\<lparr>row := row (currentPosition g) + 1\<rparr>) = Inr True \<longrightarrow>
       length (updates (moveDown rnd g)) = 1 \<and> timeouts (moveDown rnd g) = [] \<and>
       raised (moveDown rnd g) = None \<and>
       publish (moveDown rnd g) g =
         g\<lparr>currentPosition :=
             \<lparr>row = row (currentPosition g) + 1, col = col (currentPosition g)\<rparr>\<rparr>) \<and>
    (isValidMove (board g) (currentPiece g)
        ((currentPosition g)\<lparr>row := row (currentPosition g) + 1\<rparr>) = Inr False \<and>
     mergePieceWithBoard (board g) (currentPiece g) (currentPosition g) = Inr merged \<and>
     \<not> hasFullRow merged \<longrightarrow>
       length (updates (moveDown rnd g)) = 1 \<and> timeouts (moveDown rnd g) = [] \<and>
       raised (moveDown rnd g) = None \<and>
       publish (moveDown rnd g) g =
         \<lparr>board = merged,
          currentPiece = nextPiece g,
          currentPosition = \<lparr>row = 0, col = 4\<rparr>,
          nextPiece = getRandomTetromino rnd,
          score = score g,
          isGameOver = (isValidMove merged (nextPiece g) \<lparr>row = 0, col = 4\<rparr> \<noteq> Inr True),
          isPaused = isPaused g\<rparr>)"
proof (intro conjI impI)
  assume ok: "isValidMove (board g) (currentPiece g)
        ((currentPosition g)\<lparr>row := row (currentPosition g) + 1\<rparr>) = Inr True"
  have eff: "moveDown rnd g =
      \<lparr>updates = [\<lambda>prev. prev\<lparr>currentPosition :=
                     (currentPosition g)\<lparr>row := row (currentPosition g) + 1\<rparr>\<rparr>],
       timeouts = [], raised = None\<rparr>"
    using assms ok by (simp add: moveDown_def Let_def)
  show "length (updates (moveDown rnd g)) = 1" "timeouts (moveDown rnd g) = []"
    "raised (moveDown rnd g) = None"
    by (simp_all add: eff)
  show "publish (moveDown rnd g) g =
         g\<lparr>currentPosition :=
             \<lparr>row = row (currentPosition g) + 1, col = col (currentPosition g)\<rparr>\<rparr>"
    by (simp add: eff)
next
  assume landed: "isValidMove (board g) (currentPiece g)
        ((currentPosition g)\<lparr>row := row (currentPosition g) + 1\<rparr>) = Inr False \<and>
     mergePieceWithBoard (board g) (currentPiece g) (currentPosition g) = Inr merged \<and>
     \<not> hasFullRow merged"
  then have wfm: "wf_board merged"
    using mergePieceWithBoard_wf[OF assms(3), of "currentPiece g" "currentPosition g"] by auto
  have cl: "clearLines merged = Inr \<lparr>newBoard = merged, linesCleared = 0, clearedRows = []\<rparr>"
    using landed by (simp add: clearLines_wf[OF wfm] no_full_row)
  obtain valid where valid: "isValidMove merged (nextPiece g) \<lparr>row = 0, col = 4\<rparr> = Inr valid"
    using isValidMove_wf[OF wfm] by blast
  have eff: "moveDown rnd g =
      \<lparr>updates = [commitSettle merged (nextPiece g) \<lparr>row = 0, col = 4\<rparr> rnd (score g)
                    (\<not> valid)],
       timeouts = [], raised = None\<rparr>"
    using assms landed cl valid by (simp add: moveDown_def Let_def spawnPosition_eq)
  show "length (updates (moveDown rnd g)) = 1" "timeouts (moveDown rnd g) = []"
    "raised (moveDown rnd g) = None"
    by (simp_all add: eff)
  show "publish (moveDown rnd g) g =
         \<lparr>board = merged,
          currentPiece = nextPiece g,
          currentPosition = \<lparr>row = 0, col = 4\<rparr>,
          nextPiece = getRandomTetromino rnd,
          score = score g,
          isGameOver = (isValidMove merged (nextPiece g) \<lparr>row = 0, col = 4\<rparr> \<noteq> Inr True),
          isPaused = isPaused g\<rparr>"
    by (simp add: eff commitSettle_def valid)
qed

text \<open>
  An O piece on an empty board: at the top it goes down one row; on the floor it is
  merged and the I piece that was next comes in.
\<close>

theorem moveDown_step_or_settle_witness:
  "\<not> isGameOver restingO \<and> \<not> isPaused restingO \<and> wf_board (board restingO) \<and>
   wf_board (board (initialState Type_O Type_I)) \<and>
   publish (moveDown Type_T (initialState Type_O Type_I)) (initialState Type_O Type_I) =
     (initialState Type_O Type_I)\<lparr>currentPosition := \<lparr>row = 1, col = 4\<rparr>\<rparr> \<and>
   mergePieceWithBoard (board restingO) (currentPiece restingO) (currentPosition restingO) =
     Inr settledO \<and>
   \<not> hasFullRow settledO \<and>
   publish (moveDown Type_T restingO) restingO =
     \<lparr>board = settledO, currentPiece = TETROMINOES Type_I,
      currentPosition = \<lparr>row = 0, col = 4\<rparr>, nextPiece = TETROMINOES Type_T,
      score = 0, isGameOver = False, isPaused = False\<rparr>"
proof -
  let ?g = "initialState Type_O Type_I"
  have flags0: "\<not> isGameOver ?g" "\<not> isPaused ?g"
    and flags: "\<not> isGameOver restingO" "\<not> isPaused restingO"
    by (simp_all add: restingO_def initialState_def)
  have wf0: "wf_board (board ?g)" and wf: "wf_board (board restingO)"
    by (simp_all add: restingO_def initialState_def wf_createEmptyBoard)
  have down: "isValidMove (board ?g) (currentPiece ?g)
      ((currentPosition ?g)\<lparr>row := row (currentPosition ?g) + 1\<rparr>) = Inr True"
    by code_simp
  have landed: "isValidMove (board restingO) (currentPiece restingO)
      ((currentPosition restingO)\<lparr>row := row (currentPosition restingO) + 1\<rparr>) = Inr False"
    by code_simp
  have merged: "mergePieceWithBoard (board restingO) (currentPiece restingO)
      (currentPosition restingO) = Inr settledO"
    by code_simp
  have nofull: "\<not> hasFullRow settledO"
    by code_simp
  have spawn: "isValidMove settledO (nextPiece restingO) \<lparr>row = 0, col = 4\<rparr> = Inr True"
    by code_simp
  have fields: "row (currentPosition ?g) = 0" "col (currentPosition ?g) = 4"
    "nextPiece restingO = TETROMINOES Type_I" "score restingO = 0"
    "isPaused restingO = False"
    by (simp_all add: restingO_def initialState_def spawnPosition_eq getRandomTetromino_def)
  have "publish (moveDown Type_T ?g) ?g =
      ?g\<lparr>currentPosition :=
           \<lparr>row = row (currentPosition ?g) + 1, col = col (currentPosition ?g)\<rparr>\<rparr>"
    using moveDown_step_or_settle[OF flags0 wf0, where rnd = Type_T and merged = settledO]
      down by blast
  then have stepped: "publish (moveDown Type_T ?g) ?g =
      ?g\<lparr>currentPosition := \<lparr>row = 1, col = 4\<rparr>\<rparr>"
    by (simp add: fields)
  have "publish (moveDown Type_T restingO) restingO =
      \<lparr>board = settledO, currentPiece = nextPiece restingO,
       currentPosition = \<lparr>row = 0, col = 4\<rparr>, nextPiece = getRandomTetromino Type_T,
       score = score restingO,
       isGameOver =
         (isValidMove settledO (nextPiece restingO) \<lparr>row = 0, col = 4\<rparr> \<noteq> Inr True),
       isPaused = isPaused restingO\<rparr>"
    using moveDown_step_or_settle[OF flags wf, where rnd = Type_T and merged = settledO]
      landed merged nofull by blast
  then have settled: "publish (moveDown Type_T restingO) restingO =
      \<lparr>board = settledO, currentPiece = TETROMINOES Type_I,
       currentPosition = \<lparr>row = 0, col = 4\<rparr>, nextPiece = TETROMINOES Type_T,
       score = 0, isGameOver = False, isPaused = False\<rparr>"
    unfolding spawn by (simp add: fields getRandomTetromino_def)
  show ?thesis
    using flags wf wf0 merged nofull stepped settled by blast
qed

text \<open>
  C6.  Issued on a state of the data model with both flags false whose piece cannot go
  down and whose merge completes at least one row, \<open>moveDown\<close> publishes at once the
  merged board, with the full rows still in it and every other field untouched, and
  sets one timeout of 800 ms.  When that timeout fires on the published state it
  publishes the board \<open>clearLines\<close> made of the merged one, the former \<open>nextPiece\<close> as
  \<open>currentPiece\<close> at row 0, column 4, a freshly drawn \<open>nextPiece\<close>, the score raised by
  100 for each full row, and \<open>isGameOver\<close> true exactly when the new piece is not valid
  at the spawn position on the new board.
\<close>

theorem landing_two_phase:
  assumes "\<not> isGameOver g" "\<not> isPaused g" "wf_board (board g)"
    and "isValidMove (board g) (currentPiece g)
          ((currentPosition g)\<lparr>row := row (currentPosition g) + 1\<rparr>) = Inr False"
    and "mergePieceWithBoard (board g) (currentPiece g) (currentPosition g) = Inr merged"
    and "hasFullRow merged"
    and "clearLines merged = Inr cleared"
  shows "\<exists>t. step (CallMoveDown rnd) \<lparr>live = g, pending = []\<rparr> =
               Some \<lparr>live = g\<lparr>board := merged\<rparr>, pending = [t]\<rparr> \<and>
             raised (moveDown rnd g) = None \<and>
             delay t = 800 \<and>
             step (TimeoutFires rnd') \<lparr>live = g\<lparr>board := merged\<rparr>, pending = [t]\<rparr> =
               Some \<lparr>live =
                       \<lparr>board = newBoard cleared,
                        currentPiece = nextPiece g,
                        currentPosition = \<lparr>row = 0, col = 4\<rparr>,
                        nextPiece = getRandomTetromino rnd',
                        score = score g + 100 * int (length (filter isFullRow merged)),
                        isGameOver =
                          (isValidMove (newBoard cleared) (nextPiece g) \<lparr>row = 0, col = 4\<rparr>
                             \<noteq> Inr True),
                        isPaused = isPaused g\<rparr>,
                     pending = []\<rparr> \<and>
             0 < length (filter isFullRow merged)"
proof -
  let ?t = "\<lparr>delay = 800, capturedState = g, capturedBoard = newBoard cleared,
             capturedLines = linesCleared cleared\<rparr>"
  have wfm: "wf_board merged"
    using mergePieceWithBoard_wf[OF assms(3), of "currentPiece g" "currentPosition g"] assms(5)
    by auto
  have rows: "clearedRows cleared \<noteq> []"
    and lines: "linesCleared cleared = int (length (filter isFullRow merged))"
    using assms(7) some_full_row[OF assms(6)] by (auto simp: clearLines_wf[OF wfm])
  have eff: "moveDown rnd g =
      \<lparr>updates = [\<lambda>prev. prev\<lparr>board := merged\<rparr>], timeouts = [?t], raised = None\<rparr>"
    using assms rows by (simp add: moveDown_def Let_def)
  have wfc: "wf_board (newBoard cleared)"
    using wf_board_clearLines[OF wfm assms(7)] .
  obtain valid where valid:
    "isValidMove (newBoard cleared) (nextPiece g) \<lparr>row = 0, col = 4\<rparr> = Inr valid"
    using isValidMove_wf[OF wfc] by blast
  have fire: "phaseTwo rnd' ?t =
      Inr (commitSettle (newBoard cleared) (nextPiece g) \<lparr>row = 0, col = 4\<rparr> rnd'
             (score g + int (length (filter isFullRow merged)) * 100) (\<not> valid))"
    by (simp add: phaseTwo_def Let_def spawnPosition_eq valid lines)
  show ?thesis
    using some_full_row(2)[OF assms(6)]
    by (intro exI[of _ ?t]) (simp add: eff perform_def fire commitSettle_def valid)
qed

text \<open>
  The O piece that closes the bottom row: the full row is published first, and the
  timeout takes it out and adds 100.
\<close>

theorem landing_two_phase_witness:
  "\<not> isGameOver closingGap \<and> \<not> isPaused closingGap \<and> wf_board (board closingGap) \<and>
   mergePieceWithBoard (board closingGap) (currentPiece closingGap)
     (currentPosition closingGap) = Inr filledBoard \<and>
   hasFullRow filledBoard \<and>
   (\<exists>t. step (CallMoveDown Type_S) \<lparr>live = closingGap, pending = []\<rparr> =
           Some \<lparr>live = closingGap\<lparr>board := filledBoard\<rparr>, pending = [t]\<rparr> \<and>
         delay t = 800 \<and>
         step (TimeoutFires Type_Z) \<lparr>live = closingGap\<lparr>board := filledBoard\<rparr>, pending = [t]\<rparr> =
           Some \<lparr>live =
                   \<lparr>board = collapsedBoard, currentPiece = TETROMINOES Type_T,
                    currentPosition = \<lparr>row = 0, col = 4\<rparr>, nextPiece = TETROMINOES Type_Z,
                    score = 100, isGameOver = False, isPaused = False\<rparr>,
                 pending = []\<rparr>)"
proof -
  have flags: "\<not> isGameOver closingGap" "\<not> isPaused closingGap"
    by (simp_all add: closingGap_def)
  have wf: "wf_board (board closingGap)"
    by (simp add: closingGap_def wf_board_examples)
  have landed: "isValidMove (board closingGap) (currentPiece closingGap)
      ((currentPosition closingGap)\<lparr>row := row (currentPosition closingGap) + 1\<rparr>) = Inr False"
    by code_simp
  have merged: "mergePieceWithBoard (board closingGap) (currentPiece closingGap)
      (currentPosition closingGap) = Inr filledBoard"
    by code_simp
  have full: "hasFullRow filledBoard"
    by code_simp
  have cleared: "clearLines filledBoard =
      Inr \<lparr>newBoard = collapsedBoard, linesCleared = 1, clearedRows = [19]\<rparr>"
    by code_simp
  have count: "length (filter isFullRow filledBoard) = 1"
    by code_simp
  have spawn: "isValidMove collapsedBoard (nextPiece closingGap) \<lparr>row = 0, col = 4\<rparr> = Inr True"
    by code_simp
  have fields: "nextPiece closingGap = TETROMINOES Type_T" "score closingGap = 0"
    "isPaused closingGap = False"
    by (simp_all add: closingGap_def)
  have shown: "newBoard \<lparr>newBoard = collapsedBoard, linesCleared = 1, clearedRows = [19]\<rparr> =
      collapsedBoard"
    by simp
  from landing_two_phase[OF flags wf landed merged full cleared,
      where rnd = Type_S and rnd' = Type_Z, unfolded shown spawn count]
  obtain t where
    "step (CallMoveDown Type_S) \<lparr>live = closingGap, pending = []\<rparr> =
       Some \<lparr>live = closingGap\<lparr>board := filledBoard\<rparr>, pending = [t]\<rparr>"
    "delay t = 800"
    "step (TimeoutFires Type_Z) \<lparr>live = closingGap\<lparr>board := filledBoard\<rparr>, pending = [t]\<rparr> =
       Some \<lparr>live =
               \<lparr>board = collapsedBoard, currentPiece = TETROMINOES Type_T,
                currentPosition = \<lparr>row = 0, col = 4\<rparr>, nextPiece = TETROMINOES Type_Z,
                score = 100, isGameOver = False, isPaused = False\<rparr>,
             pending = []\<rparr>"
    by (auto simp add: fields getRandomTetromino_def simp del: step.simps)
  then show ?thesis
    using flags wf merged full by blast
qed

text \<open>
  C7.  On a board of \<open>BOARD_HEIGHT\<close> rows of \<open>BOARD_WIDTH\<close> cells \<open>clearLines\<close> raises
  nothing and returns: as \<open>clearedRows\<close> the indices of the rows of the input whose
  cells are all 1, in ascending order; as \<open>linesCleared\<close> their number; as \<open>newBoard\<close>
  that many rows of zeros followed by the other rows of the input in their order,
  \<open>BOARD_HEIGHT\<close> rows in all.
\<close>

theorem clearLines_correct:
  assumes "wf_board b"
  shows "\<exists>res. clearLines b = Inr res \<and>
           clearedRows res = filter (\<lambda>i. isFullRow (b ! i)) [0..<nat BOARD_HEIGHT] \<and>
           sorted_wrt (<) (clearedRows res) \<and>
           linesCleared res = int (length (filter isFullRow b)) \<and>
           length (clearedRows res) = length (filter isFullRow b) \<and>
           newBoard res =
             replicate (length (filter isFullRow b)) (replicate (nat BOARD_WIDTH) 0) @
             filter (\<lambda>boardRow. \<not> isFullRow boardRow) b \<and>
           int (length (newBoard res)) = BOARD_HEIGHT"
proof -
  have len: "length b = nat BOARD_HEIGHT"
    using assms by (simp add: wf_board_def BOARD_HEIGHT_def)
  have count:
    "length (filter (\<lambda>i. isFullRow (b ! i)) [0..<length b]) = length (filter isFullRow b)"
    using length_clearedRowsFrom[of 0 b] by (simp add: clearedRowsFrom_eq)
  have "sorted_wrt (<) (filter (\<lambda>i. isFullRow (b ! i)) [0..<length b])"
    by (rule sorted_wrt_filter) simp
  then show ?thesis
    using full_and_kept_rows[OF assms] count len
    by (simp add: clearLines_wf[OF assms] BOARD_WIDTH_def BOARD_HEIGHT_def)
qed

text \<open>Rows 3 and 7 full: two rows of zeros come in on top and the other rows keep their order.\<close>

theorem clearLines_correct_witness:
  "wf_board twoFullRows \<and>
   clearLines twoFullRows =
     Inr \<lparr>newBoard =
            replicate 2 (replicate 10 0) @
            map (\<lambda>i. (replicate 10 0)[i mod 10 := 1])
              [0, 1, 2, 4, 5, 6, 8, 9, 10, 11, 12, 13, 14, 15, 16, 17, 18, 19],
          linesCleared = 2,
          clearedRows = [3, 7]\<rparr> \<and>
   length (filter isFullRow twoFullRows) = 2"
proof -
  have wf: "wf_board twoFullRows"
    by (rule wf_board_examples)
  have res: "clearLines twoFullRows =
     Inr \<lparr>newBoard =
            replicate 2 (replicate 10 0) @
            map (\<lambda>i. (replicate 10 0)[i mod 10 := 1])
              [0, 1, 2, 4, 5, 6, 8, 9, 10, 11, 12, 13, 14, 15, 16, 17, 18, 19],
          linesCleared = 2,
          clearedRows = [3, 7]\<rparr>"
    by code_simp
  show ?thesis
    using clearLines_correct[OF wf] wf res by auto
qed

text \<open>
  C8.  On a square shape \<open>rotatePiece\<close> raises nothing and returns a piece of the same
  type and colour whose shape is the square of the same size with
  \<open>newShape[c][N-1-r] = shape[r][c]\<close>; and four rotations of any of the seven catalogue
  pieces give the piece back.  The input is a value and is never written to.
\<close>

theorem rotatePiece_clockwise:
  assumes "squareShape (shape p)"
  shows "(\<exists>q. rotatePiece p = Inr q \<and> type q = type p \<and> color q = color p \<and>
            squareShape (shape q) \<and> length (shape q) = length (shape p) \<and>
            (\<forall>r < length (shape p). \<forall>c < length (shape p).
               shape q ! c ! (length (shape p) - 1 - r) = shape p ! r ! c)) \<and>
         rotateTimes 4 (TETROMINOES t) = Inr (TETROMINOES t)"
proof -
  let ?n = "length (shape p)"
  let ?q = "p\<lparr>shape :=
     map (\<lambda>index. rev (map (\<lambda>shapeRow. shapeRow ! index) (shape p))) [0..<?n]\<rparr>"
  have rot: "rotatePiece p = Inr ?q"
    by (rule rotatePiece_square[OF assms])
  have pos: "0 < ?n"
    using assms by (simp add: squareShape_def)
  have sq: "squareShape (shape ?q)"
    using pos by (simp add: squareShape_def list_all_iff)
  have cells: "shape ?q ! c ! (?n - 1 - r) = shape p ! r ! c" if "r < ?n" "c < ?n" for r c
  proof -
    have "shape ?q ! c = rev (map (\<lambda>shapeRow. shapeRow ! c) (shape p))"
      using that by simp
    moreover have "?n - 1 - r < ?n" using that by simp
    moreover have "?n - Suc (?n - 1 - r) = r" using that by simp
    ultimately show ?thesis
      using that by (simp add: rev_nth)
  qed
  have four: "rotateTimes 4 (TETROMINOES t) = Inr (TETROMINOES t)"
    by (cases t; hypsubst_thin; code_simp)
  show ?thesis
    using rot sq cells four by (intro conjI exI[of _ ?q]) simp_all
qed

text \<open>The L piece, lying with its tip up at the right, comes to stand with its foot at the right.\<close>

theorem rotatePiece_clockwise_witness:
  "squareShape (shape (TETROMINOES Type_L)) \<and>
   rotatePiece (TETROMINOES Type_L) =
     Inr \<lparr>shape = [[0, 1, 0], [0, 1, 0], [0, 1, 1]], type = Type_L, color = ''#f0a000''\<rparr> \<and>
   rotateTimes 4 (TETROMINOES Type_L) = Inr (TETROMINOES Type_L)"
proof -
  have sq: "squareShape (shape (TETROMINOES Type_L))"
    by (simp add: squareShape_def)
  have "rotatePiece (TETROMINOES Type_L) =
     Inr \<lparr>shape = [[0, 1, 0], [0, 1, 0], [0, 1, 1]], type = Type_L, color = ''#f0a000''\<rparr>"
    by code_simp
  then show ?thesis
    using sq rotatePiece_clockwise[OF sq, of Type_L] by simp
qed

text \<open>
  C9.  In a state of the data model with both flags false, \<open>moveLeft\<close> and \<open>moveRight\<close>
  publish the state with the column one less or one more exactly when \<open>isValidMove\<close>
  accepts that position, and the unchanged state otherwise; \<open>rotate\<close> publishes the
  state with the rotated piece, at the same position, exactly when \<open>isValidMove\<close>
  accepts the rotated piece there, and the unchanged state otherwise.  None of the three
  raises, blocked or not.
\<close>

theorem blocked_or_moved:
  assumes "\<not> isGameOver g" "\<not> isPaused g" "wf_board (board g)"
    "squareShape (shape (currentPiece g))"
  shows "publish (moveLeft g) g =
           (if isValidMove (board g) (currentPiece g)
                 ((currentPosition g)\<lparr>col := col (currentPosition g) - 1\<rparr>) = Inr True
            then g\<lparr>currentPosition := (currentPosition g)\<lparr>col := col (currentPosition g) - 1\<rparr>\<rparr>
            else g) \<and>
         publish (moveRight g) g =
           (if isValidMove (board g) (currentPiece g)
                 ((currentPosition g)\<lparr>col := col (currentPosition g) + 1\<rparr>) = Inr True
            then g\<lparr>currentPosition := (currentPosition g)\<lparr>col := col (currentPosition g) + 1\<rparr>\<rparr>
            else g) \<and>
         (\<exists>rotated. rotatePiece (currentPiece g) = Inr rotated \<and>
            publish (rotate_cmd g) g =
              (if isValidMove (board g) rotated (currentPosition g) = Inr True
               then g\<lparr>currentPiece := rotated\<rparr> else g)) \<and>
         raised (moveLeft g) = None \<and> raised (moveRight g) = None \<and>
         raised (rotate_cmd g) = None"
  using assms
  by (simp add: moveLeft_def moveRight_def rotate_cmd_def Let_def isValidMove_wf
      rotatePiece_square)

text \<open>At the left wall the move to the left is blocked and the move to the right is not.\<close>

theorem blocked_or_moved_witness:
  "\<not> isGameOver leftEdgeO \<and> \<not> isPaused leftEdgeO \<and> wf_board (board leftEdgeO) \<and>
   squareShape (shape (currentPiece leftEdgeO)) \<and>
   publish (moveLeft leftEdgeO) leftEdgeO = leftEdgeO \<and>
   publish (moveRight leftEdgeO) leftEdgeO =
     leftEdgeO\<lparr>currentPosition := \<lparr>row = 0, col = 1\<rparr>\<rparr> \<and>
   raised (moveLeft leftEdgeO) = None"
proof -
  have flags: "\<not> isGameOver leftEdgeO" "\<not> isPaused leftEdgeO"
    by (simp_all add: leftEdgeO_def initialState_def)
  have wf: "wf_board (board leftEdgeO)"
    by (simp add: leftEdgeO_def initialState_def wf_createEmptyBoard)
  have sq: "squareShape (shape (currentPiece leftEdgeO))"
    by (simp add: leftEdgeO_def initialState_def getRandomTetromino_def squareShape_def)
  have left: "isValidMove (board leftEdgeO) (currentPiece leftEdgeO)
      ((currentPosition leftEdgeO)\<lparr>col := col (currentPosition leftEdgeO) - 1\<rparr>) = Inr False"
    by code_simp
  have right: "isValidMove (board leftEdgeO) (currentPiece leftEdgeO)
      ((currentPosition leftEdgeO)\<lparr>col := col (currentPosition leftEdgeO) + 1\<rparr>) = Inr True"
    by code_simp
  have pos: "(currentPosition leftEdgeO)\<lparr>col := col (currentPosition leftEdgeO) + 1\<rparr> =
      \<lparr>row = 0, col = 1\<rparr>"
    by (simp add: leftEdgeO_def)
  show ?thesis
    using blocked_or_moved[OF flags wf sq] flags wf sq
    by (simp add: left right[unfolded pos] pos)
qed

text \<open>
  C10.  In every state \<open>moveLeft\<close>, \<open>moveRight\<close> and \<open>rotate\<close> leave \<open>board\<close>,
  \<open>nextPiece\<close>, \<open>score\<close>, \<open>isGameOver\<close> and \<open>isPaused\<close> as they were; the two moves
  also leave \<open>currentPiece\<close>, and the rotation \<open>currentPosition\<close>.  None of them sets a
  timeout.
\<close>

theorem moves_frame:
  "(let g' = publish (moveLeft g) g in
      board g' = board g \<and> currentPiece g' = currentPiece g \<and> nextPiece g' = nextPiece g \<and>
      score g' = score g \<and> isGameOver g' = isGameOver g \<and> isPaused g' = isPaused g) \<and>
   (let g' = publish (moveRight g) g in
      board g' = board g \<and> currentPiece g' = currentPiece g \<and> nextPiece g' = nextPiece g \<and>
      score g' = score g \<and> isGameOver g' = isGameOver g \<and> isPaused g' = isPaused g) \<and>
   (let g' = publish (rotate_cmd g) g in
      board g' = board g \<and> currentPosition g' = currentPosition g \<and>
      nextPiece g' = nextPiece g \<and>
      score g' = score g \<and> isGameOver g' = isGameOver g \<and> isPaused g' = isPaused g) \<and>
   timeouts (moveLeft g) = [] \<and> timeouts (moveRight g) = [] \<and> timeouts (rotate_cmd g) = []"
  by (simp add: moveLeft_def moveRight_def rotate_cmd_def Let_def split: sum.split)

end
